(* ===== verification/Go_Prelude.thy ===== *)
theory Go_Prelude
  imports Main "HOL-Library.Word" "HOL-Library.Finite_Map" "HOL-Library.Sublist"
begin

text \<open>
  Shared vocabulary of the development: Go values (errors, pointers, fixed-width
  integers), the functions of the Go standard library packages \<^verbatim>\<open>strings\<close>,
  \<^verbatim>\<open>strconv\<close> and \<^verbatim>\<open>fmt\<close> that the sources call, and the lemmas on them that
  the component theories use.

  Strings are byte sequences in Go and \<open>char list\<close> here (a \<open>char\<close> is a byte).
  A pointer is an \<open>option\<close>, \<open>None\<close> is \<^verbatim>\<open>nil\<close>.
\<close>

named_theorems go_string "lemmas on the string functions of the Go library"
named_theorems go_eval "equations that evaluate the models on concrete input by simp"

section \<open>Errors and integers\<close>

text \<open>
  An error value. The sources distinguish one kind of error by its structure: the API
  server's \<^verbatim>\<open>NotFound\<close> status (\<^verbatim>\<open>apierrors.IsNotFound\<close>,
  \<^verbatim>\<open>client.IgnoreNotFound\<close>). Every other error is known by its text.
\<close>

datatype go_error = Errorf string | ApiNotFound string

type_synonym u8 = "8 word"
type_synonym u16 = "16 word"
type_synonym u32 = "32 word"
type_synonym u64 = "64 word"

fun error_text :: "go_error \<Rightarrow> string" where
  "error_text (Errorf m) = m"
| "error_text (ApiNotFound m) = m"

fun isNotFound :: "go_error \<Rightarrow> bool" where
  "isNotFound (ApiNotFound _) = True"
| "isNotFound (Errorf _) = False"

text \<open>\<^verbatim>\<open>client.IgnoreNotFound(err) != nil\<close>\<close>

definition ignoreNotFound :: "go_error \<Rightarrow> go_error option" where
  "ignoreNotFound e = (if isNotFound e then None else Some e)"

section \<open>Package strings\<close>

definition hasPrefix :: "string \<Rightarrow> string \<Rightarrow> bool" where
  "hasPrefix s p \<longleftrightarrow> length p \<le> length s \<and> take (length p) s = p"

definition hasSuffix :: "string \<Rightarrow> string \<Rightarrow> bool" where
  "hasSuffix s p \<longleftrightarrow> length p \<le> length s \<and> drop (length s - length p) s = p"

definition trimPrefix :: "string \<Rightarrow> string \<Rightarrow> string" where
  "trimPrefix s p = (if hasPrefix s p then drop (length p) s else s)"

definition trimSuffix :: "string \<Rightarrow> string \<Rightarrow> string" where
  "trimSuffix s p = (if hasSuffix s p then take (length s - length p) s else s)"

text \<open>\<^verbatim>\<open>strings.Contains\<close>\<close>

fun strContains :: "string \<Rightarrow> string \<Rightarrow> bool" where
  "strContains [] p = (p = [])"
| "strContains (c # cs) p = (hasPrefix (c # cs) p \<or> strContains cs p)"

text \<open>
  \<^verbatim>\<open>strings.Replace(s, old, new, -1)\<close>: every non-overlapping occurrence from the
  left. The sources only call it with a non-empty \<open>old\<close>.
\<close>

function replaceAll :: "string \<Rightarrow> string \<Rightarrow> string \<Rightarrow> string" where
  "replaceAll s old new =
     (case s of
        [] \<Rightarrow> []
      | c # cs \<Rightarrow>
          (if old \<noteq> [] \<and> hasPrefix s old
           then new @ replaceAll (drop (length old) s) old new
           else c # replaceAll cs old new))"
  by pat_completeness auto
termination
  by (relation "measure (\<lambda>(s, old, new). length s)") auto

declare replaceAll.simps [simp del]

text \<open>\<^verbatim>\<open>strings.Join\<close>\<close>

fun strJoin :: "string list \<Rightarrow> string \<Rightarrow> string" where
  "strJoin [] sep = []"
| "strJoin [x] sep = x"
| "strJoin (x # y # ys) sep = x @ sep @ strJoin (y # ys) sep"

text \<open>
  \<^verbatim>\<open>strings.ToLower\<close> takes a byte-wise path when the string is ASCII. For other
  strings it maps code points with the tables of package \<^verbatim>\<open>unicode\<close>, which are
  the parameter \<open>uni\<close>.
\<close>

definition isASCII :: "string \<Rightarrow> bool" where
  "isASCII s = list_all (\<lambda>c. of_char c < (128 :: nat)) s"

definition lowerByte :: "char \<Rightarrow> char" where
  "lowerByte c =
     (let n = (of_char c :: nat) in if 65 \<le> n \<and> n \<le> 90 then char_of (n + 32) else c)"

definition toLower :: "(string \<Rightarrow> string) \<Rightarrow> string \<Rightarrow> string" where
  "toLower uni s = (if isASCII s then map lowerByte s else uni s)"

text \<open>
  \<^verbatim>\<open>strings.TrimLeft\<close> and \<^verbatim>\<open>strings.TrimRight\<close> with a one-byte cutset.
\<close>

definition trimLeftByte :: "char \<Rightarrow> string \<Rightarrow> string" where
  "trimLeftByte c s = dropWhile (\<lambda>x. x = c) s"

definition trimRightByte :: "char \<Rightarrow> string \<Rightarrow> string" where
  "trimRightByte c s = rev (dropWhile (\<lambda>x. x = c) (rev s))"

text \<open>
  \<^verbatim>\<open>strings.TrimSpace\<close>: white space as defined by Unicode. The list holds the UTF-8
  encodings of the code points with property \<^verbatim>\<open>White_Space\<close>: the six ASCII bytes, then
  U+0085, U+00A0, U+1680, U+2000 to U+200A, U+2028, U+2029, U+202F, U+205F and U+3000.
\<close>

definition utf8Spaces :: "string list" where
  "utf8Spaces =
     map (map char_of)
       ([[9], [10], [11], [12], [13], [32],
         [0xC2, 0x85], [0xC2, 0xA0], [0xE1, 0x9A, 0x80],
         [0xE2, 0x80, 0x80], [0xE2, 0x80, 0x81], [0xE2, 0x80, 0x82], [0xE2, 0x80, 0x83],
         [0xE2, 0x80, 0x84], [0xE2, 0x80, 0x85], [0xE2, 0x80, 0x86], [0xE2, 0x80, 0x87],
         [0xE2, 0x80, 0x88], [0xE2, 0x80, 0x89], [0xE2, 0x80, 0x8A],
         [0xE2, 0x80, 0xA8], [0xE2, 0x80, 0xA9], [0xE2, 0x80, 0xAF],
         [0xE2, 0x81, 0x9F], [0xE3, 0x80, 0x80]] :: nat list list)"

fun stripPrefixes :: "nat \<Rightarrow> string list \<Rightarrow> string \<Rightarrow> string" where
  "stripPrefixes 0 ws s = s"
| "stripPrefixes (Suc n) ws s =
     (case find (hasPrefix s) ws of
        None \<Rightarrow> s
      | Some w \<Rightarrow> stripPrefixes n ws (drop (length w) s))"

definition trimSpace :: "string \<Rightarrow> string" where
  "trimSpace s =
     (let l = stripPrefixes (length s) utf8Spaces s
      in rev (stripPrefixes (length l) (map rev utf8Spaces) (rev l)))"

text \<open>\<^verbatim>\<open>strings.Split\<close> with a one-byte separator.\<close>

fun splitByte :: "char \<Rightarrow> string \<Rightarrow> string list" where
  "splitByte c [] = [[]]"
| "splitByte c (x # xs) =
     (if x = c then [] # splitByte c xs
      else (case splitByte c xs of [] \<Rightarrow> [[x]] | w # ws \<Rightarrow> (x # w) # ws))"

section \<open>Lemmas on strings\<close>

lemma hasPrefix_iff [go_string]: "hasPrefix s p \<longleftrightarrow> prefix p s"
  unfolding hasPrefix_def
  by (metis append_eq_conv_conj append_take_drop_id prefix_def prefix_length_le)

lemma hasSuffix_iff [go_string]: "hasSuffix s p \<longleftrightarrow> suffix p s"
proof
  assume "hasSuffix s p"
  then show "suffix p s"
    unfolding hasSuffix_def by (metis suffix_drop)
next
  assume "suffix p s"
  then show "hasSuffix s p"
    by (auto simp: hasSuffix_def suffix_def)
qed

lemma hasSuffix_append [simp]: "hasSuffix (s @ p) p"
  by (simp add: hasSuffix_def)

lemma trimSuffix_append [simp]: "trimSuffix (s @ p) p = s"
  by (simp add: trimSuffix_def)

lemma trimSuffix_no: "\<not> hasSuffix s p \<Longrightarrow> trimSuffix s p = s"
  by (simp add: trimSuffix_def)

lemma hasSuffix_single: "hasSuffix s [c] \<longleftrightarrow> s \<noteq> [] \<and> last s = c"
  by (auto simp: hasSuffix_iff suffix_def)
    (metis append_butlast_last_id)

lemma hasPrefix_Nil [simp]: "hasPrefix s []"
  by (simp add: hasPrefix_def)

lemma isASCII_append [simp]: "isASCII (s @ t) \<longleftrightarrow> isASCII s \<and> isASCII t"
  by (simp add: isASCII_def)

lemma of_char_lowerByte:
  "(of_char (lowerByte c) :: nat) =
     (let n = (of_char c :: nat) in if 65 \<le> n \<and> n \<le> 90 then n + 32 else n)"
  by (auto simp: lowerByte_def Let_def)

lemma lowerByte_idem [simp]: "lowerByte (lowerByte c) = lowerByte c"
  by (auto simp: lowerByte_def Let_def)

lemma lowerByte_dot [simp]: "lowerByte CHR ''.'' = CHR ''.''"
  by (simp add: lowerByte_def)

lemma isASCII_dot [simp]: "isASCII ''.''"
  by (simp add: isASCII_def)

lemma isASCII_lower [simp]: "isASCII (map lowerByte s) \<longleftrightarrow> isASCII s"
  by (auto simp: isASCII_def list_all_iff of_char_lowerByte Let_def)

lemma toLower_ascii_idem: "isASCII s \<Longrightarrow> toLower uni (toLower uni s) = toLower uni s"
  by (simp add: toLower_def o_def)

text \<open>Characters computed from numbers.\<close>

lemmas char_eval = char_of_def bit_0

text \<open>Replacing a single byte is a byte-wise map.\<close>

lemma replaceAll_Nil [simp]: "replaceAll [] old new = []"
  by (simp add: replaceAll.simps)

lemma replaceAll_single_Cons:
  "replaceAll (x # xs) [c] new = (if x = c then new else [x]) @ replaceAll xs [c] new"
  by (subst replaceAll.simps) (auto simp: hasPrefix_def)

lemma replaceAll_single [go_string]:
  "replaceAll s [c] new = concat (map (\<lambda>x. if x = c then new else [x]) s)"
  by (induction s) (simp_all add: replaceAll_single_Cons)

lemma set_replaceAll_single:
  "set (replaceAll s [c] new) = (set s - {c}) \<union> (if c \<in> set s then set new else {})"
  by (auto simp: replaceAll_single split: if_splits)

lemma trimRightByte_Nil [simp]: "trimRightByte c [] = []"
  by (simp add: trimRightByte_def)

lemma trimLeftByte_Nil [simp]: "trimLeftByte c [] = []"
  by (simp add: trimLeftByte_def)

text \<open>Splitting at a separator and joining again gives the string back.\<close>

lemma splitByte_not_Nil [simp]: "splitByte c s \<noteq> []"
  by (induction s) (auto split: list.splits)

lemma strJoin_Cons_head:
  "ws \<noteq> [] \<Longrightarrow> strJoin ((x # w) # ws) sep = x # strJoin (w # ws) sep"
  by (cases ws) auto

lemma join_splitByte: "strJoin (splitByte c s) [c] = s"
proof (induction s)
  case (Cons x s)
  obtain w ws where w: "splitByte c s = w # ws"
    by (cases "splitByte c s") auto
  with Cons show ?case
    by (cases ws) auto
qed simp

section \<open>Step relations and their invariants\<close>

text \<open>
  A machine with its start states and a predicate that the start states have and every step
  keeps. The concurrent parts of the program (the locks, the informer) interpret it.
\<close>

locale invariant_machine =
  fixes step :: "'s \<Rightarrow> 's \<Rightarrow> bool" and start :: "'s \<Rightarrow> bool" and inv :: "'s \<Rightarrow> bool"
  assumes inv_start: "start s \<Longrightarrow> inv s"
    and inv_step: "step s s' \<Longrightarrow> inv s \<Longrightarrow> inv s'"
begin

lemma inv_run: "step\<^sup>*\<^sup>* s s' \<Longrightarrow> inv s \<Longrightarrow> inv s'"
  by (induction rule: rtranclp_induct) (auto intro: inv_step)

lemma inv_reach: "step\<^sup>*\<^sup>* s s' \<Longrightarrow> start s \<Longrightarrow> inv s'"
  using inv_run inv_start by blast

end

end
