(* ===== verification/Go_Strconv.thy ===== *)
theory Go_Strconv
  imports Go_Prelude
begin

text \<open>
  Numbers as text: the decimal and hexadecimal printing behind \<^verbatim>\<open>fmt.Sprintf("%d")\<close>
  and \<^verbatim>\<open>net.IP.String\<close>, and \<^verbatim>\<open>strconv.ParseUint(s, 10, 32)\<close> as the Go library
  computes it, on 64-bit words with the range check after every digit.
\<close>

section \<open>Printing\<close>

definition digitChar :: "nat \<Rightarrow> char" where
  "digitChar d = char_of (if d < 10 then 48 + d else 87 + d)"

fun toBase :: "nat \<Rightarrow> nat \<Rightarrow> nat list" where
  "toBase b n = (if b < 2 \<or> n < b then [n] else toBase b (n div b) @ [n mod b])"

declare toBase.simps [simp del]

definition itoa :: "nat \<Rightarrow> string" where
  "itoa n = map digitChar (toBase 10 n)"

definition itox :: "nat \<Rightarrow> string" where
  "itox n = map digitChar (toBase 16 n)"

section \<open>Reading\<close>

definition decDigit :: "char \<Rightarrow> nat option" where
  "decDigit c = (let n = of_char c in if 48 \<le> n \<and> n \<le> 57 then Some (n - 48) else None)"

definition hexDigit :: "char \<Rightarrow> nat option" where
  "hexDigit c =
     (let n = of_char c
      in if 48 \<le> n \<and> n \<le> 57 then Some (n - 48)
         else if 97 \<le> n \<and> n \<le> 102 then Some (n - 87)
         else if 65 \<le> n \<and> n \<le> 70 then Some (n - 55)
         else None)"

definition evalDigits :: "nat \<Rightarrow> nat \<Rightarrow> nat list \<Rightarrow> nat" where
  "evalDigits b n ds = foldl (\<lambda>a d. a * b + d) n ds"

text \<open>
  \<^verbatim>\<open>strconv.ParseUint(s, 10, 32)\<close>: a byte that is not a decimal digit (the letters are
  digits of larger bases and fail the check against the base) is a syntax error, a value
  beyond \<^verbatim>\<open>1<<32 - 1\<close> a range error. The accumulator is a \<^verbatim>\<open>uint64\<close>.
\<close>

definition parseUint_cutoff :: u64 where
  "parseUint_cutoff = 0xFFFFFFFFFFFFFFFF div 10 + 1"

fun parseUint_loop :: "string \<Rightarrow> u64 \<Rightarrow> go_error + u64" where
  "parseUint_loop [] n = Inr n"
| "parseUint_loop (c # cs) n =
     (case decDigit c of
        None \<Rightarrow> Inl (Errorf ''invalid syntax'')
      | Some d \<Rightarrow>
          (if parseUint_cutoff \<le> n then Inl (Errorf ''value out of range'')
           else let m = n * 10; m1 = m + of_nat d
                in if m1 < m \<or> 0xFFFFFFFF < m1 then Inl (Errorf ''value out of range'')
                   else parseUint_loop cs m1))"

definition parseUint32 :: "string \<Rightarrow> go_error + u64" where
  "parseUint32 s = (if s = [] then Inl (Errorf ''invalid syntax'') else parseUint_loop s 0)"

section \<open>Digits\<close>

lemma toBase_not_Nil [simp]: "toBase b n \<noteq> []"
  by (subst toBase.simps) simp

lemma evalDigits_Nil [simp]: "evalDigits b n [] = n"
  by (simp add: evalDigits_def)

lemma evalDigits_Cons [simp]: "evalDigits b n (d # ds) = evalDigits b (n * b + d) ds"
  by (simp add: evalDigits_def)

lemma evalDigits_append: "evalDigits b n (xs @ ys) = evalDigits b (evalDigits b n xs) ys"
  by (simp add: evalDigits_def)

lemma evalDigits_ge: "0 < b \<Longrightarrow> n \<le> evalDigits b n ds"
proof (induction ds arbitrary: n)
  case (Cons d ds)
  then have "n * b + d \<le> evalDigits b (n * b + d) ds" by simp
  moreover have "n \<le> n * b + d" using Cons.prems
    by (metis Suc_leI mult_le_mono2 mult_numeral_1_right numeral_One trans_le_add1 One_nat_def)
  ultimately show ?case by simp
qed simp

lemma evalDigits_toBase: "2 \<le> b \<Longrightarrow> evalDigits b 0 (toBase b n) = n"
proof (induction b n rule: toBase.induct)
  case (1 b n)
  show ?case
  proof (cases "n < b")
    case True
    then show ?thesis by (subst toBase.simps) simp
  next
    case False
    with 1 have "evalDigits b 0 (toBase b (n div b)) = n div b" by simp
    with False 1(2) show ?thesis
      by (subst toBase.simps) (simp add: evalDigits_append)
  qed
qed

lemma toBase_digits: "2 \<le> b \<Longrightarrow> d \<in> set (toBase b n) \<Longrightarrow> d < b"
proof (induction b n rule: toBase.induct)
  case (1 b n)
  show ?case
  proof (cases "n < b")
    case True
    with 1 show ?thesis by (simp add: toBase.simps [of b n])
  next
    case False
    with 1 show ?thesis by (auto simp: toBase.simps [of b n])
  qed
qed

lemma hd_toBase: "2 \<le> b \<Longrightarrow> hd (toBase b n) = 0 \<longleftrightarrow> n = 0"
proof (induction b n rule: toBase.induct)
  case (1 b n)
  show ?case
  proof (cases "n < b")
    case True
    then show ?thesis by (simp add: toBase.simps [of b n])
  next
    case False
    with 1 have "hd (toBase b (n div b)) = 0 \<longleftrightarrow> n div b = 0" by simp
    with False 1(2) show ?thesis
      by (simp add: toBase.simps [of b n] hd_append div_eq_0_iff)
  qed
qed

lemma toBase_small: "n < b \<Longrightarrow> toBase b n = [n]"
  by (subst toBase.simps) simp

lemma of_char_digitChar: "d < 16 \<Longrightarrow> of_char (digitChar d) = (if d < 10 then 48 + d else 87 + d)"
  by (auto simp: digitChar_def)

lemma decDigit_digitChar [simp]: "d < 10 \<Longrightarrow> decDigit (digitChar d) = Some d"
  by (simp add: decDigit_def Let_def of_char_digitChar)

lemma hexDigit_digitChar [simp]: "d < 16 \<Longrightarrow> hexDigit (digitChar d) = Some d"
  by (simp add: hexDigit_def Let_def of_char_digitChar)

lemma decDigit_bound: "decDigit c = Some d \<Longrightarrow> d < 10"
  by (auto simp: decDigit_def Let_def split: if_splits)

lemma itoa_not_Nil [simp]: "itoa n \<noteq> []"
  by (simp add: itoa_def)

lemma decDigit_itoa: "c \<in> set (itoa n) \<Longrightarrow> \<exists>d. decDigit c = Some d"
  using toBase_digits [of 10] by (force simp: itoa_def)

section \<open>ParseUint against the decimal value\<close>

fun decValue :: "string \<Rightarrow> nat \<Rightarrow> nat option" where
  "decValue [] n = Some n"
| "decValue (c # cs) n =
     (case decDigit c of None \<Rightarrow> None | Some d \<Rightarrow> decValue cs (n * 10 + d))"

lemma decValue_ge: "decValue s n = Some v \<Longrightarrow> n \<le> v"
  by (induction s n rule: decValue.induct) (fastforce split: option.splits)+

lemma decValue_digits:
  "\<forall>d \<in> set ds. d < 10 \<Longrightarrow> decValue (map digitChar ds) n = Some (evalDigits 10 n ds)"
  by (induction ds arbitrary: n) simp_all

lemma decValue_itoa: "decValue (itoa n) 0 = Some n"
  using toBase_digits [of 10 _ n] evalDigits_toBase [of 10 n]
  by (simp add: itoa_def decValue_digits)

lemma itoa_inj [simp]: "itoa m = itoa n \<longleftrightarrow> m = n"
  by (metis decValue_itoa option.inject)

lemma parseUint_step:
  fixes n :: u64
  assumes n: "unat n \<le> 0xFFFFFFFF" and d: "d < 10"
  shows "n < parseUint_cutoff"
    and "unat (n * 10 + of_nat d) = unat n * 10 + d"
    and "n * 10 \<le> n * 10 + of_nat d"
proof -
  have m: "unat (n * 10) = unat n * 10"
    using n by (simp add: unat_word_ariths)
  show "unat (n * 10 + of_nat d) = unat n * 10 + d"
    using n d m by (simp add: unat_word_ariths unat_of_nat)
  then show "n * 10 \<le> n * 10 + of_nat d"
    using m by (simp add: word_le_nat_alt)
  have "unat n < unat parseUint_cutoff"
    using n by (simp add: parseUint_cutoff_def)
  then show "n < parseUint_cutoff"
    by (simp add: word_less_nat_alt)
qed

lemma parseUint_loop_iff:
  "unat n \<le> 0xFFFFFFFF \<Longrightarrow>
     parseUint_loop s n = Inr w \<longleftrightarrow> decValue s (unat n) = Some (unat w) \<and> unat w \<le> 0xFFFFFFFF"
proof (induction s n rule: parseUint_loop.induct)
  case (1 n)
  then show ?case by (auto simp: word_unat_eq_iff)
next
  case (2 c cs n)
  show ?case
  proof (cases "decDigit c")
    case (Some d)
    note st = parseUint_step [OF "2.prems" decDigit_bound [OF Some]]
    show ?thesis
    proof (cases "unat n * 10 + d \<le> 0xFFFFFFFF")
      case True
      then have le: "n * 10 + of_nat d \<le> 0xFFFFFFFF"
        by (simp add: word_le_nat_alt st(2))
      have "parseUint_loop (c # cs) n = parseUint_loop cs (n * 10 + of_nat d)"
        using Some st(1,3) le by (auto simp: Let_def)
      moreover have "parseUint_loop cs (n * 10 + of_nat d) = Inr w \<longleftrightarrow>
          decValue cs (unat n * 10 + d) = Some (unat w) \<and> unat w \<le> 0xFFFFFFFF"
        using "2.IH" [OF Some _ refl refl] st le True by (simp add: not_less not_le)
      ultimately show ?thesis using Some by simp
    next
      case False
      then have "0xFFFFFFFF < n * 10 + of_nat d"
        by (simp add: word_less_nat_alt st(2))
      with Some st(1) have "parseUint_loop (c # cs) n = Inl (Errorf ''value out of range'')"
        by (simp add: Let_def not_le)
      with False Some show ?thesis
        by (auto dest: decValue_ge)
    qed
  qed simp
qed

lemma parseUint32_iff:
  "parseUint32 s = Inr w \<longleftrightarrow> s \<noteq> [] \<and> decValue s 0 = Some (unat w) \<and> unat w < 2 ^ 32"
  using parseUint_loop_iff [of 0 s w] by (auto simp: parseUint32_def)

lemma parseUint32_itoa: "n < 2 ^ 32 \<Longrightarrow> parseUint32 (itoa n) = Inr (of_nat n)"
  by (simp add: parseUint32_iff decValue_itoa unat_of_nat)

lemma unat_ucast_parseUint32:
  "parseUint32 s = Inr w \<Longrightarrow> unat (ucast w :: u32) = unat w"
  by (simp add: parseUint32_iff unsigned_ucast_eq take_bit_nat_eq_self)

end
