(* ===== verification/Go_Net.thy ===== *)
theory Go_Net
  imports Go_Strconv
begin

text \<open>
  The part of the Go package \<^verbatim>\<open>net\<close> that the sources use: \<^verbatim>\<open>net.IP\<close> with
  \<^verbatim>\<open>ParseIP\<close>, \<^verbatim>\<open>String\<close>, \<^verbatim>\<open>To4\<close> and the address classes, and
  \<^verbatim>\<open>net.IPNet\<close> with \<^verbatim>\<open>ParseCIDR\<close> and \<^verbatim>\<open>Contains\<close>. The shared facts are that
  \<^verbatim>\<open>ParseIP\<close> yields \<^verbatim>\<open>nil\<close> or sixteen bytes, and that it reads back the dotted
  text \<^verbatim>\<open>String\<close> prints for an IPv4 address.
\<close>

unbundle bit_operations_syntax

section \<open>Addresses\<close>

text \<open>\<^verbatim>\<open>type IP []byte\<close>; the empty list is \<^verbatim>\<open>nil\<close>.\<close>

type_synonym IP = "u8 list"

definition v4InV6Prefix :: IP where
  "v4InV6Prefix = replicate 10 0 @ [0xFF, 0xFF]"

definition To4 :: "IP \<Rightarrow> IP" where
  "To4 ip =
     (if length ip = 4 then ip
      else if length ip = 16 \<and> take 12 ip = v4InV6Prefix then drop 12 ip
      else [])"

definition net_IPv4 :: "u8 \<Rightarrow> u8 \<Rightarrow> u8 \<Rightarrow> u8 \<Rightarrow> IP" where
  "net_IPv4 a b c d = v4InV6Prefix @ [a, b, c, d]"

section \<open>Parsing\<close>

text \<open>
  The scanners \<^verbatim>\<open>dtoi\<close> and \<^verbatim>\<open>xtoi\<close>: digits up to the first other byte, giving the
  value and the number of bytes read; \<open>None\<close> for no digit or a value that reaches
  \<^verbatim>\<open>big\<close>.
\<close>

fun scanNum :: "(char \<Rightarrow> nat option) \<Rightarrow> nat \<Rightarrow> string \<Rightarrow> nat \<Rightarrow> nat \<Rightarrow> (nat \<times> nat) option" where
  "scanNum dig b [] n i = (if i = 0 then None else Some (n, i))"
| "scanNum dig b (c # cs) n i =
     (case dig c of
        None \<Rightarrow> (if i = 0 then None else Some (n, i))
      | Some d \<Rightarrow>
          (let m = n * b + d
           in if 0xFFFFFF \<le> m then None else scanNum dig b cs m (Suc i)))"

definition dtoi :: "string \<Rightarrow> (nat \<times> nat) option" where
  "dtoi s = scanNum decDigit 10 s 0 0"

definition xtoi :: "string \<Rightarrow> (nat \<times> nat) option" where
  "xtoi s = scanNum hexDigit 16 s 0 0"

text \<open>The loop over the four octets; the first argument counts the octets still to read.\<close>

fun parseIPv4_loop :: "nat \<Rightarrow> string \<Rightarrow> u8 list \<Rightarrow> u8 list option" where
  "parseIPv4_loop 0 s p = (if s = [] then Some p else None)"
| "parseIPv4_loop (Suc k) s p =
     (if s = [] then None
      else if p \<noteq> [] \<and> hd s \<noteq> CHR ''.'' then None
      else let t = (if p \<noteq> [] then tl s else s)
           in case dtoi t of
                None \<Rightarrow> None
              | Some (n, c) \<Rightarrow>
                  (if 0xFF < n then None
                   else if 1 < c \<and> hd t = CHR ''0'' then None
                   else parseIPv4_loop k (drop c t) (p @ [of_nat n])))"

definition parseIPv4 :: "string \<Rightarrow> IP" where
  "parseIPv4 s =
     (case parseIPv4_loop 4 s [] of None \<Rightarrow> [] | Some p \<Rightarrow> v4InV6Prefix @ p)"

text \<open>
  The IPv6 loop: text left, bytes read, position of the ellipsis. The first argument
  counts the 16-bit groups that still fit. \<open>None\<close> is an early \<^verbatim>\<open>return nil\<close>.
\<close>

fun parseIPv6_loop ::
  "nat \<Rightarrow> string \<Rightarrow> u8 list \<Rightarrow> nat option \<Rightarrow> (string \<times> u8 list \<times> nat option) option" where
  "parseIPv6_loop 0 s ip e = Some (s, ip, e)"
| "parseIPv6_loop (Suc k) s ip e =
     (case xtoi s of
        None \<Rightarrow> None
      | Some (n, c) \<Rightarrow>
          (if 0xFFFF < n then None
           else if c < length s \<and> s ! c = CHR ''.'' then
             (if e = None \<and> length ip \<noteq> 12 then None
              else if 16 < length ip + 4 then None
              else let ip4 = parseIPv4 s
                   in if ip4 = [] then None else Some ([], ip @ drop 12 ip4, e))
           else
             (let ip' = ip @ [of_nat (n div 256), of_nat n]; t = drop c s
              in if t = [] then Some ([], ip', e)
                 else if hd t \<noteq> CHR '':'' \<or> length t = 1 then None
                 else let t2 = tl t
                      in if hd t2 = CHR '':'' then
                           (if e \<noteq> None then None
                            else let t3 = tl t2
                                 in if t3 = [] then Some ([], ip', Some (length ip'))
                                    else parseIPv6_loop k t3 ip' (Some (length ip')))
                         else parseIPv6_loop k t2 ip' e)))"

text \<open>The end of \<^verbatim>\<open>parseIPv6\<close>: the whole text must be used, and an ellipsis stands for
  at least one zero group.\<close>

fun expandEllipsis :: "string \<times> u8 list \<times> nat option \<Rightarrow> IP" where
  "expandEllipsis (rest, ip, e) =
     (if rest \<noteq> [] then []
      else if length ip < 16 then
        (case e of
           None \<Rightarrow> []
         | Some p \<Rightarrow> take p ip @ replicate (16 - length ip) 0 @ drop p ip)
      else if e \<noteq> None then []
      else ip)"

definition parseIPv6 :: "string \<Rightarrow> IP" where
  "parseIPv6 s =
     (if s = ''::'' then replicate 16 0
      else case (if hasPrefix s ''::'' then parseIPv6_loop 8 (drop 2 s) [] (Some 0)
                 else parseIPv6_loop 8 s [] None) of
             None \<Rightarrow> []
           | Some r \<Rightarrow> expandEllipsis r)"

definition ParseIP :: "string \<Rightarrow> IP" where
  "ParseIP s =
     (case find (\<lambda>c. c = CHR ''.'' \<or> c = CHR '':'') s of
        None \<Rightarrow> []
      | Some c \<Rightarrow> if c = CHR ''.'' then parseIPv4 s else parseIPv6 s)"

section \<open>Printing\<close>

definition dotted :: "u8 list \<Rightarrow> string" where
  "dotted p = strJoin (map (itoa \<circ> unat) p) ''.''"

fun groups16 :: "u8 list \<Rightarrow> nat list" where
  "groups16 (a # b # bs) = (256 * unat a + unat b) # groups16 bs"
| "groups16 _ = []"

definition zeroRun :: "nat list \<Rightarrow> nat" where
  "zeroRun gs = length (takeWhile (\<lambda>g. g = 0) gs)"

text \<open>The longest run of zero groups, the first one among the longest.\<close>

function longestZeros :: "nat list \<Rightarrow> nat \<Rightarrow> nat \<times> nat \<Rightarrow> nat \<times> nat" where
  "longestZeros gs i best =
     (if length gs \<le> i then best
      else let j = i + zeroRun (drop i gs)
           in if i < j \<and> snd best - fst best < j - i then longestZeros gs (Suc j) (i, j)
              else longestZeros gs (Suc i) best)"
  by pat_completeness auto
termination
  by (relation "measure (\<lambda>(gs, i, best). length gs - i)") auto

declare longestZeros.simps [simp del]

definition hex2 :: "u8 \<Rightarrow> string" where
  "hex2 b = [digitChar (unat b div 16), digitChar (unat b mod 16)]"

definition ipString :: "IP \<Rightarrow> string" where
  "ipString ip =
     (if ip = [] then ''<nil>''
      else if To4 ip \<noteq> [] then dotted (To4 ip)
      else if length ip \<noteq> 16 then ''?'' @ concat (map hex2 ip)
      else let gs = groups16 ip; (e0, e1) = longestZeros gs 0 (0, 0)
           in if e1 - e0 \<le> 1 then strJoin (map itox gs) '':''
              else strJoin (map itox (take e0 gs)) '':'' @ ''::''
                     @ strJoin (map itox (drop e1 gs)) '':'')"

section \<open>Address classes and networks\<close>

definition IsLoopback :: "IP \<Rightarrow> bool" where
  "IsLoopback ip =
     (if To4 ip \<noteq> [] then To4 ip ! 0 = 127 else ip = replicate 15 0 @ [1])"

definition IsLinkLocalUnicast :: "IP \<Rightarrow> bool" where
  "IsLinkLocalUnicast ip =
     (if To4 ip \<noteq> [] then To4 ip ! 0 = 169 \<and> To4 ip ! 1 = 254
      else length ip = 16 \<and> ip ! 0 = 0xFE \<and> ip ! 1 AND 0xC0 = 0x80)"

definition IsLinkLocalMulticast :: "IP \<Rightarrow> bool" where
  "IsLinkLocalMulticast ip =
     (if To4 ip \<noteq> [] then To4 ip ! 0 = 224 \<and> To4 ip ! 1 = 0 \<and> To4 ip ! 2 = 0
      else length ip = 16 \<and> ip ! 0 = 0xFF \<and> ip ! 1 AND 0x0F = 0x02)"

text \<open>\<^verbatim>\<open>net.IPNet\<close>: the network number and the mask, of equal length.\<close>

record IPNet =
  net_IP :: "u8 list"
  net_Mask :: "u8 list"

text \<open>\<^verbatim>\<open>CIDRMask(ones, 8 * len)\<close>, byte by byte.\<close>

fun cidrMask :: "nat \<Rightarrow> nat \<Rightarrow> u8 list" where
  "cidrMask ones 0 = []"
| "cidrMask ones (Suc len) =
     (if 8 \<le> ones then 0xFF # cidrMask (ones - 8) len
      else NOT (drop_bit ones 0xFF) # cidrMask 0 len)"

definition ParseCIDR :: "string \<Rightarrow> IPNet option" where
  "ParseCIDR s =
     (let addr = takeWhile (\<lambda>c. c \<noteq> CHR ''/'') s; rest = dropWhile (\<lambda>c. c \<noteq> CHR ''/'') s
      in if rest = [] then None
         else
           (let ip4 = parseIPv4 addr;
                ip = (if ip4 \<noteq> [] then drop 12 ip4 else parseIPv6 addr);
                mask = tl rest
            in case dtoi mask of
                 None \<Rightarrow> None
               | Some (n, i) \<Rightarrow>
                   (if ip = [] \<or> i \<noteq> length mask \<or> 8 * length ip < n then None
                    else let m = cidrMask n (length ip)
                         in Some \<lparr>net_IP = map2 (AND) ip m, net_Mask = m\<rparr>)))"

definition netContains :: "IPNet \<Rightarrow> IP \<Rightarrow> bool" where
  "netContains n ip =
     (let x = (if To4 ip \<noteq> [] then To4 ip else ip)
      in length x = length (net_IP n)
         \<and> map2 (AND) (net_IP n) (net_Mask n) = map2 (AND) x (net_Mask n))"

section \<open>Evaluation on concrete text\<close>

lemma parseIPv4_eval [go_eval]:
  "parseIPv4 s =
     (case parseIPv4_loop (Suc (Suc (Suc (Suc 0)))) s [] of
        None \<Rightarrow> [] | Some p \<Rightarrow> v4InV6Prefix @ p)"
  by (simp add: parseIPv4_def numeral_eq_Suc)

lemma parseIPv6_eval [go_eval]:
  "parseIPv6 s =
     (let k = Suc (Suc (Suc (Suc (Suc (Suc (Suc (Suc 0)))))))
      in if s = ''::'' then replicate 16 0
         else case (if hasPrefix s ''::'' then parseIPv6_loop k (drop 2 s) [] (Some 0)
                    else parseIPv6_loop k s [] None) of
                None \<Rightarrow> []
              | Some r \<Rightarrow> expandEllipsis r)"
  by (simp add: parseIPv6_def numeral_eq_Suc)

lemma cidrMask_eval [go_eval]:
  "cidrMask ones (numeral n) =
     (if 8 \<le> ones then 0xFF # cidrMask (ones - 8) (pred_numeral n)
      else NOT (drop_bit ones 0xFF) # cidrMask 0 (pred_numeral n))"
  by (simp add: numeral_eq_Suc)

lemma replicate_eval [go_eval]: "replicate (numeral n) x = x # replicate (pred_numeral n) x"
  by (simp add: numeral_eq_Suc)

lemma octet_carry [go_eval]: "(- 256 :: u8) = 0"
  by (simp add: word_eq_iff_unsigned)

lemmas net_defs [go_eval] =
  dtoi_def xtoi_def decDigit_def hexDigit_def Let_def hasPrefix_def ParseIP_def net_IPv4_def
  v4InV6Prefix_def ParseCIDR_def To4_def

section \<open>Facts on parsing and printing\<close>

lemma parseIPv4_loop_length:
  "parseIPv4_loop k s p = Some q \<Longrightarrow> length q = length p + k"
  by (induction k s p rule: parseIPv4_loop.induct)
    (auto simp: Let_def split: if_splits option.splits prod.splits)

lemma length_v4InV6Prefix [simp]: "length v4InV6Prefix = 12"
  by (simp add: v4InV6Prefix_def)

lemma v4InV6Prefix_not_Nil [simp]: "v4InV6Prefix \<noteq> []"
  by (simp add: v4InV6Prefix_def)

lemma parseIPv4_length: "parseIPv4 s \<noteq> [] \<Longrightarrow> length (parseIPv4 s) = 16"
  by (auto simp: parseIPv4_def dest: parseIPv4_loop_length split: option.splits)

lemma parseIPv6_loop_length:
  "parseIPv6_loop k s ip e = Some (r, ip', e') \<Longrightarrow> length ip + 2 * k = 16 \<Longrightarrow>
     (\<forall>p. e = Some p \<longrightarrow> p \<le> length ip) \<Longrightarrow>
     length ip' \<le> 16 \<and> (\<forall>p. e' = Some p \<longrightarrow> p \<le> length ip')"
proof (induction k arbitrary: s ip e)
  case (Suc k)
  from Suc.prems(1) obtain n c where x: "xtoi s = Some (n, c)"
    by (cases "xtoi s") auto
  show ?case
  proof (cases "c < length s \<and> s ! c = CHR ''.''")
    case True
    with Suc.prems x show ?thesis
      by (auto simp: Let_def split: if_splits dest: parseIPv4_length)
  next
    case False
    let ?ip = "ip @ [of_nat (n div 256), of_nat n]"
    have step: "length ip' \<le> 16 \<and> (\<forall>p. e' = Some p \<longrightarrow> p \<le> length ip')"
      if "parseIPv6_loop k t ?ip f = Some (r, ip', e')" "\<forall>p. f = Some p \<longrightarrow> p \<le> length ?ip" for t f
      using Suc.IH [OF that(1) _ that(2)] Suc.prems(2) by simp
    have fin: "length ?ip \<le> 16" using Suc.prems(2) by simp
    from Suc.prems(1) x False show ?thesis
      using Suc.prems(3) fin
      by (simp add: Let_def split: if_splits) (auto intro!: step elim: le_SucI)
  qed
qed auto

lemma expandEllipsis_length:
  "length ip \<le> 16 \<Longrightarrow> expandEllipsis (r, ip, e) \<noteq> [] \<Longrightarrow> length (expandEllipsis (r, ip, e)) = 16"
  by (auto split: if_splits option.splits)

lemma parseIPv6_length: "parseIPv6 s \<noteq> [] \<Longrightarrow> length (parseIPv6 s) = 16"
proof -
  have "length ip \<le> 16" if "parseIPv6_loop 8 t [] e = Some (r, ip, e')" "e = Some 0 \<or> e = None"
    for t e r ip e'
    using parseIPv6_loop_length [OF that(1)] that(2) by auto
  then show "parseIPv6 s \<noteq> [] \<Longrightarrow> length (parseIPv6 s) = 16"
    unfolding parseIPv6_def
    by (auto simp del: expandEllipsis.simps split: option.splits if_splits
        intro!: expandEllipsis_length)
qed

lemma ParseIP_length: "ParseIP s \<noteq> [] \<Longrightarrow> length (ParseIP s) = 16"
  by (auto simp: ParseIP_def parseIPv4_length parseIPv6_length split: option.splits if_splits)

lemma scanNum_digits:
  assumes "\<forall>d \<in> set ds. dig (digitChar d) = Some d"
    and "rest = [] \<or> dig (hd rest) = None"
    and "evalDigits b n ds < 0xFFFFFF" and "0 < b" and "ds \<noteq> [] \<or> i \<noteq> 0"
  shows "scanNum dig b (map digitChar ds @ rest) n i = Some (evalDigits b n ds, i + length ds)"
  using assms
proof (induction ds arbitrary: n i)
  case Nil
  then show ?case by (cases rest) auto
next
  case (Cons d ds)
  have "n * b + d \<le> evalDigits b (n * b + d) ds"
    by (rule evalDigits_ge) (rule Cons.prems(4))
  then have "n * b + d < 0xFFFFFF" using Cons.prems(3) by simp
  with Cons show ?case by (simp add: Let_def)
qed

lemma dtoi_itoa:
  assumes "n < 0xFFFFFF" and "rest = [] \<or> decDigit (hd rest) = None"
  shows "dtoi (itoa n @ rest) = Some (n, length (itoa n))"
  using scanNum_digits [of "toBase 10 n" decDigit rest 10 0 0] assms
    toBase_digits [of 10 _ n] evalDigits_toBase [of 10 n]
  by (simp add: dtoi_def itoa_def)

lemma hd_itoa_zero: "1 < length (itoa n) \<Longrightarrow> hd (itoa n) \<noteq> CHR ''0''"
proof
  assume len: "1 < length (itoa n)" and hd: "hd (itoa n) = CHR ''0''"
  have "hd (toBase 10 n) < 10"
    by (rule toBase_digits [of 10 _ n]) simp_all
  then have "decDigit (hd (itoa n)) = Some (hd (toBase 10 n))"
    by (simp add: itoa_def hd_map)
  with hd have "hd (toBase 10 n) = 0"
    by (simp add: decDigit_def)
  then have "n = 0" by (simp add: hd_toBase)
  with len show False by (simp add: itoa_def toBase_small)
qed

lemma dotted_Cons:
  "dotted (b # q) = itoa (unat b) @ concat (map (\<lambda>x. CHR ''.'' # itoa (unat x)) q)"
proof (induction q arbitrary: b)
  case (Cons c q)
  then show ?case by (simp add: dotted_def)
qed (simp add: dotted_def)

lemma octet_bound: "unat (b :: u8) < 256"
  using unsigned_less [of b, where 'a = nat] by simp

lemma decDigit_dot [simp]: "decDigit CHR ''.'' = None"
  by (simp add: decDigit_def)

lemma dtoi_octet:
  "dtoi (itoa (unat (b :: u8)) @ concat (map (\<lambda>x. CHR ''.'' # itoa (unat x)) q))
     = Some (unat b, length (itoa (unat b)))"
proof (rule dtoi_itoa)
  show "unat b < 0xFFFFFF" using octet_bound [of b] by simp
  show "concat (map (\<lambda>x. CHR ''.'' # itoa (unat x)) q) = [] \<or>
      decDigit (hd (concat (map (\<lambda>x. CHR ''.'' # itoa (unat x)) q))) = None"
    by (cases q) auto
qed

lemma hd_octet_zero:
  "1 < length (itoa (unat b)) \<Longrightarrow> hd (itoa (unat b) @ rest) \<noteq> CHR ''0''"
  using hd_itoa_zero [of "unat b"] by (simp add: hd_append)

lemma parseIPv4_loop_dots:
  "p \<noteq> [] \<Longrightarrow>
     parseIPv4_loop (length q) (concat (map (\<lambda>x. CHR ''.'' # itoa (unat x)) q)) p = Some (p @ q)"
proof (induction q arbitrary: p)
  case (Cons b q)
  then show ?case
    using dtoi_octet [of b q] hd_octet_zero [of b] octet_bound [of b]
    by (auto simp: Let_def not_less not_le)
qed simp

lemma parseIPv4_loop_dotted: "parseIPv4_loop (Suc (length q)) (dotted (b # q)) [] = Some (b # q)"
  using dtoi_octet [of b q] hd_octet_zero [of b] octet_bound [of b]
    parseIPv4_loop_dots [of "[b]" q]
  by (auto simp: Let_def not_less not_le dotted_Cons)

lemma parseIPv4_dotted: "parseIPv4 (dotted [a, b, c, d]) = net_IPv4 a b c d"
  using parseIPv4_loop_dotted [of "[b, c, d]" a]
  by (simp add: parseIPv4_def net_IPv4_def eval_nat_numeral)

lemma find_append_None: "find P xs = None \<Longrightarrow> find P (xs @ ys) = find P ys"
  by (induction xs) (auto split: if_splits)

lemma find_dot_itoa:
  "find (\<lambda>c. c = CHR ''.'' \<or> c = CHR '':'') (itoa n @ CHR ''.'' # rest) = Some CHR ''.''"
proof -
  have "\<not> (c = CHR ''.'' \<or> c = CHR '':'')" if "c \<in> set (itoa n)" for c
    using decDigit_itoa [OF that] by (auto simp: decDigit_def)
  then have "find (\<lambda>c. c = CHR ''.'' \<or> c = CHR '':'') (itoa n) = None"
    by (auto simp: find_None_iff)
  then show ?thesis
    by (simp add: find_append_None)
qed

lemma ParseIP_dotted: "ParseIP (dotted [a, b, c, d]) = net_IPv4 a b c d"
  using parseIPv4_dotted [of a b c d] by (simp add: ParseIP_def dotted_Cons find_dot_itoa)

lemma length4_conv: "length xs = 4 \<longleftrightarrow> (\<exists>a b c d. xs = [a, b, c, d])"
  by (auto simp: length_Suc_conv eval_nat_numeral)

lemma net_IPv4_not_Nil [simp]: "net_IPv4 a b c d \<noteq> []"
  by (simp add: net_IPv4_def)

lemma length_net_IPv4 [simp]: "length (net_IPv4 a b c d) = 16"
  by (simp add: net_IPv4_def)

lemma To4_net_IPv4 [simp]: "To4 (net_IPv4 a b c d) = [a, b, c, d]"
  by (simp add: To4_def net_IPv4_def)

lemma To4_conv:
  "length ip = 16 \<Longrightarrow> To4 ip \<noteq> [] \<longleftrightarrow> (\<exists>a b c d. ip = net_IPv4 a b c d)"
proof
  assume len: "length ip = 16" and "To4 ip \<noteq> []"
  then have pre: "take 12 ip = v4InV6Prefix" by (auto simp: To4_def split: if_splits)
  have "length (drop 12 ip) = 4" using len by simp
  then obtain a b c d where "drop 12 ip = [a, b, c, d]"
    unfolding length4_conv by blast
  with pre have "ip = net_IPv4 a b c d"
    by (metis append_take_drop_id net_IPv4_def)
  then show "\<exists>a b c d. ip = net_IPv4 a b c d" by blast
qed auto

lemma ipString_net_IPv4: "ipString (net_IPv4 a b c d) = dotted [a, b, c, d]"
  by (simp add: ipString_def)

lemma ParseIP_ipString_v4:
  "length ip = 16 \<Longrightarrow> To4 ip \<noteq> [] \<Longrightarrow> ParseIP (ipString ip) = ip"
  by (auto simp: To4_conv ipString_net_IPv4 ParseIP_dotted)

lemma ParseIP_Nil [simp]: "ParseIP [] = []"
  by (simp add: ParseIP_def)

end
