(* ===== verification/Ip_Private.thy ===== *)
theory Ip_Private
  imports Go_Net
begin

text \<open>
  Component \<^verbatim>\<open>pkg/ip\<close>: the private address blocks parsed when the package is
  initialised, and the predicate \<^verbatim>\<open>IsPrivate\<close> over them. The theorems say that the
  initialisation does not panic and which IPv4 addresses are private, byte by byte.
\<close>

section \<open>Definitions\<close>

definition privateCIDRs :: "string list" where
  "privateCIDRs =
     [''127.0.0.0/8'', ''10.0.0.0/8'', ''172.16.0.0/12'', ''192.168.0.0/16'',
      ''169.254.0.0/16'', ''::1/128'', ''fe80::/10'', ''fc00::/7'']"

text \<open>The loop of \<^verbatim>\<open>init\<close>; \<open>None\<close> is its panic.\<close>

fun parseBlocks :: "string list \<Rightarrow> IPNet list option" where
  "parseBlocks [] = Some []"
| "parseBlocks (cidr # cidrs) =
     (case ParseCIDR cidr of
        None \<Rightarrow> None
      | Some block \<Rightarrow> map_option ((#) block) (parseBlocks cidrs))"

definition privateIPBlocks :: "IPNet list" where
  "privateIPBlocks = (case parseBlocks privateCIDRs of None \<Rightarrow> [] | Some bs \<Rightarrow> bs)"

definition IsPrivate :: "IP \<Rightarrow> bool" where
  "IsPrivate ip =
     (IsLoopback ip \<or> IsLinkLocalUnicast ip \<or> IsLinkLocalMulticast ip
      \<or> list_ex (\<lambda>block. netContains block ip) privateIPBlocks)"

definition IsPrivateS :: "string \<Rightarrow> bool" where
  "IsPrivateS s = (let i = ParseIP s in if i = [] then False else IsPrivate i)"

section \<open>The parsed blocks\<close>

lemma parseBlocks_private:
  "parseBlocks privateCIDRs =
     Some [\<lparr>net_IP = [127, 0, 0, 0], net_Mask = [255, 0, 0, 0]\<rparr>,
           \<lparr>net_IP = [10, 0, 0, 0], net_Mask = [255, 0, 0, 0]\<rparr>,
           \<lparr>net_IP = [172, 16, 0, 0], net_Mask = [255, 240, 0, 0]\<rparr>,
           \<lparr>net_IP = [192, 168, 0, 0], net_Mask = [255, 255, 0, 0]\<rparr>,
           \<lparr>net_IP = [169, 254, 0, 0], net_Mask = [255, 255, 0, 0]\<rparr>,
           \<lparr>net_IP = replicate 15 0 @ [1], net_Mask = replicate 16 255\<rparr>,
           \<lparr>net_IP = 254 # 128 # replicate 14 0, net_Mask = 255 # 192 # replicate 14 0\<rparr>,
           \<lparr>net_IP = 252 # replicate 15 0, net_Mask = 254 # replicate 15 0\<rparr>]"
  by (simp add: privateCIDRs_def go_eval)

lemma octet_and_full [simp]: "(b :: u8) AND 255 = b"
proof -
  have m: "(255 :: u8) = mask 8" by (simp add: mask_eq_exp_minus_1)
  show ?thesis unfolding m by (simp only: take_bit_eq_mask [symmetric]) (simp add: take_bit_word_eq_self)
qed

lemma octet_and_high: "(b :: u8) AND 240 = 16 \<longleftrightarrow> 16 \<le> b \<and> b \<le> 31"
proof -
  have "b AND 240 = push_bit 4 (take_bit 4 (drop_bit 4 b))"
    unfolding slice_eq_mask
    by (simp add: mask_eq_exp_minus_1)
  then have "unat (b AND 240) = 16 * (unat b div 16)"
    using octet_bound [of b]
    by (simp add: push_bit_eq_mult take_bit_eq_mod drop_bit_eq_div unat_word_ariths unat_div unat_mod)
  then show ?thesis
    by (auto simp: word_unat_eq_iff word_le_nat_alt)
qed

lemma IsPrivate_v4:
  "IsPrivate (net_IPv4 a b c d) \<longleftrightarrow>
     a = 127 \<or> a = 10 \<or> (a = 172 \<and> 16 \<le> b \<and> b \<le> 31) \<or> (a = 192 \<and> b = 168)
     \<or> (a = 169 \<and> b = 254) \<or> (a = 224 \<and> b = 0 \<and> c = 0)"
  by (simp add: IsPrivate_def IsLoopback_def IsLinkLocalUnicast_def IsLinkLocalMulticast_def
      privateIPBlocks_def parseBlocks_private netContains_def Let_def octet_and_high) blast

section \<open>Properties\<close>

text \<open>
  C34. The package initialises without a panic (all eight CIDR texts parse), and the text
  of an IPv4 address is private exactly for the loopback block, the three RFC 1918
  blocks, the link-local block 169.254/16 and the link-local multicast block 224.0.0/24.
\<close>

theorem IsPrivateS_v4_iff:
  "parseBlocks privateCIDRs \<noteq> None \<and>
   (IsPrivateS (dotted [a, b, c, d]) \<longleftrightarrow>
     a = 127 \<or> a = 10 \<or> (a = 172 \<and> 16 \<le> b \<and> b \<le> 31) \<or> (a = 192 \<and> b = 168)
     \<or> (a = 169 \<and> b = 254) \<or> (a = 224 \<and> b = 0 \<and> c = 0))"
  by (simp add: parseBlocks_private IsPrivateS_def ParseIP_dotted IsPrivate_v4 Let_def)

end
