(* ===== verification/Dns_Api.thy ===== *)
theory Dns_Api
  imports Go_Net
begin

text \<open>
  The data every component works on: the resource records of \<^verbatim>\<open>github.com/miekg/dns\<close> as
  far as the sources build or take them apart, the Kubernetes object metadata, the
  \<^verbatim>\<open>DNSRecord\<close> custom resource of \<^verbatim>\<open>api/v1alpha1/dnsrecord_types.go\<close>, and the record
  \<open>ext\<close> of functions that live in third-party packages. Those functions are parameters:
  each definition that calls one takes \<open>ext\<close> as an argument, and what a theorem needs of
  them is a named predicate over \<open>ext\<close>.
\<close>

section \<open>Resource records\<close>

text \<open>\<^verbatim>\<open>dns.RR_Header\<close>; the sources leave \<^verbatim>\<open>Rdlength\<close> at zero and never read it.\<close>

record RR_Header =
  h_Name :: string
  h_Rrtype :: u16
  h_Class :: u16
  h_Ttl :: u32

text \<open>The type and class numbers the sources name.\<close>

abbreviation "TypeA \<equiv> (1 :: u16)"
abbreviation "TypeNS \<equiv> (2 :: u16)"
abbreviation "TypeCNAME \<equiv> (5 :: u16)"
abbreviation "TypeSOA \<equiv> (6 :: u16)"
abbreviation "TypeMX \<equiv> (15 :: u16)"
abbreviation "TypeTXT \<equiv> (16 :: u16)"
abbreviation "TypeSRV \<equiv> (33 :: u16)"
abbreviation "ClassINET \<equiv> (1 :: u16)"

text \<open>
  \<^verbatim>\<open>dns.RR\<close>: one constructor per pointer type the sources mention, and
  \<open>RR_Other\<close> for every other implementation, known by the name of its Go type
  (\<^verbatim>\<open>PTR\<close>, \<^verbatim>\<open>CAA\<close>, ...), its header and its data as text.
\<close>

datatype rr =
    RR_A RR_Header IP
  | RR_AAAA RR_Header IP
  | RR_CNAME RR_Header string
  | RR_MX RR_Header u16 string
  | RR_NS RR_Header string
  | RR_SRV RR_Header u16 u16 u16 string
  | RR_TXT RR_Header "string list"
  | RR_SOA RR_Header string string u32 u32 u32 u32 u32
  | RR_Other string RR_Header string

text \<open>\<^verbatim>\<open>rr.Header()\<close>\<close>

fun rrHeader :: "rr \<Rightarrow> RR_Header" where
  "rrHeader (RR_A h _) = h"
| "rrHeader (RR_AAAA h _) = h"
| "rrHeader (RR_CNAME h _) = h"
| "rrHeader (RR_MX h _ _) = h"
| "rrHeader (RR_NS h _) = h"
| "rrHeader (RR_SRV h _ _ _ _) = h"
| "rrHeader (RR_TXT h _) = h"
| "rrHeader (RR_SOA h _ _ _ _ _ _ _) = h"
| "rrHeader (RR_Other _ h _) = h"

text \<open>\<^verbatim>\<open>reflect.TypeOf(rr).String()\<close>\<close>

fun rrGoType :: "rr \<Rightarrow> string" where
  "rrGoType (RR_A _ _) = ''*dns.A''"
| "rrGoType (RR_AAAA _ _) = ''*dns.AAAA''"
| "rrGoType (RR_CNAME _ _) = ''*dns.CNAME''"
| "rrGoType (RR_MX _ _ _) = ''*dns.MX''"
| "rrGoType (RR_NS _ _) = ''*dns.NS''"
| "rrGoType (RR_SRV _ _ _ _ _) = ''*dns.SRV''"
| "rrGoType (RR_TXT _ _) = ''*dns.TXT''"
| "rrGoType (RR_SOA _ _ _ _ _ _ _ _) = ''*dns.SOA''"
| "rrGoType (RR_Other t _ _) = ''*dns.'' @ t"

section \<open>Kubernetes metadata\<close>

record OwnerReference =
  or_APIVersion :: string
  or_Kind :: string
  or_Name :: string
  or_UID :: string
  or_Controller :: "bool option"
  or_BlockOwnerDeletion :: "bool option"

text \<open>\<^verbatim>\<open>metav1.ObjectMeta\<close>, the fields the sources read or write. A nil map or slice and an
  empty one differ under \<^verbatim>\<open>reflect.DeepEqual\<close>, hence the options.\<close>

record ObjectMeta =
  m_Name :: string
  m_Namespace :: string
  m_UID :: string
  m_ResourceVersion :: string
  m_DeletionTimestamp :: "nat option"
  m_Annotations :: "(string, string) fmap option"
  m_OwnerReferences :: "OwnerReference list option"
  m_Finalizers :: "string list"

record TypeMeta =
  t_APIVersion :: string
  t_Kind :: string

definition emptyMeta :: ObjectMeta where
  "emptyMeta =
     \<lparr>m_Name = [], m_Namespace = [], m_UID = [], m_ResourceVersion = [],
      m_DeletionTimestamp = None, m_Annotations = None, m_OwnerReferences = None,
      m_Finalizers = []\<rparr>"

text \<open>\<^verbatim>\<open>types.NamespacedName\<close>, the request of a reconciler.\<close>

record NamespacedName =
  nn_Namespace :: string
  nn_Name :: string

definition namespacedNameString :: "NamespacedName \<Rightarrow> string" where
  "namespacedNameString n = nn_Namespace n @ ''/'' @ nn_Name n"

section \<open>The DNSRecord resource\<close>

record ARecord =
  a_Name :: string
  a_Class :: u16
  a_Ttl :: u32
  a_Target :: string

record CNAMERecord =
  cname_Name :: string
  cname_Class :: u16
  cname_Ttl :: u32
  cname_Target :: string

record TXTRecord =
  txt_Name :: string
  txt_Class :: u16
  txt_Ttl :: u32
  txt_Targets :: "string list"

record SRVRecord =
  srv_Name :: string
  srv_Class :: u16
  srv_Ttl :: u32
  srv_Priority :: u16
  srv_Weight :: u16
  srv_Port :: u16
  srv_Target :: string

record MXRecord =
  mx_Name :: string
  mx_Class :: u16
  mx_Ttl :: u32
  mx_Preference :: u16
  mx_Target :: string

record DNSRecordSpec =
  sp_Active :: "bool option"
  sp_A :: "ARecord option"
  sp_CNAME :: "CNAMERecord option"
  sp_TXT :: "TXTRecord option"
  sp_SRV :: "SRVRecord option"
  sp_MX :: "MXRecord option"
  sp_Raw :: string

record DNSRecordStatus =
  st_Record :: string
  st_Active :: "bool option"
  st_Provider :: string
  st_ID :: string

record DNSRecord =
  r_TypeMeta :: TypeMeta
  r_Meta :: ObjectMeta
  r_Spec :: DNSRecordSpec
  r_Status :: DNSRecordStatus

record ListMeta =
  lm_SelfLink :: string
  lm_ResourceVersion :: string
  lm_Continue :: string
  lm_RemainingItemCount :: "int option"

record DNSRecordList =
  dl_TypeMeta :: TypeMeta
  dl_ListMeta :: ListMeta
  dl_Items :: "DNSRecord list"

definition emptyListMeta :: ListMeta where
  "emptyListMeta = \<lparr>lm_SelfLink = [], lm_ResourceVersion = [], lm_Continue = [], lm_RemainingItemCount = None\<rparr>"

definition emptySpec :: DNSRecordSpec where
  "emptySpec =
     \<lparr>sp_Active = None, sp_A = None, sp_CNAME = None, sp_TXT = None, sp_SRV = None,
      sp_MX = None, sp_Raw = []\<rparr>"

definition emptyStatus :: DNSRecordStatus where
  "emptyStatus = \<lparr>st_Record = [], st_Active = None, st_Provider = [], st_ID = []\<rparr>"

section \<open>Package ptr\<close>

definition ptr_Bool :: "bool \<Rightarrow> bool option" where
  "ptr_Bool b = Some b"

definition ptr_ToBool :: "bool option \<Rightarrow> bool" where
  "ptr_ToBool b = (case b of None \<Rightarrow> False | Some v \<Rightarrow> v)"

definition ptr_ToBoolD :: "bool option \<Rightarrow> bool \<Rightarrow> bool" where
  "ptr_ToBoolD b d = (case b of None \<Rightarrow> d | Some v \<Rightarrow> v)"

section \<open>Third-party functions\<close>

text \<open>
  \<^item> \<open>unicodeLower\<close>: the Unicode case tables behind \<^verbatim>\<open>strings.ToLower\<close> (used for
    strings that are not ASCII), and \<open>unicodeTitle\<close> those behind \<^verbatim>\<open>strings.Title\<close>;
  \<^item> \<open>pslDomain\<close>: \<^verbatim>\<open>publicsuffix.Domain\<close>, the registrable domain of a name;
  \<^item> \<open>newRR\<close>: \<^verbatim>\<open>dns.NewRR\<close>, an error, no record (empty text or a comment) or a record;
  \<^item> \<open>rrString\<close>: \<^verbatim>\<open>rr.String()\<close>;
  \<^item> \<open>splitDomainName\<close>: \<^verbatim>\<open>dns.SplitDomainName\<close>;
  \<^item> \<open>dnsFqdn\<close>: \<^verbatim>\<open>dns.Fqdn\<close>;
  \<^item> \<open>typeToString\<close>: the table \<^verbatim>\<open>dns.TypeToString\<close>;
  \<^item> \<open>isDuplicate\<close>: \<^verbatim>\<open>dns.IsDuplicate\<close>;
  \<^item> \<open>absoluteName\<close>: \<^verbatim>\<open>libdns.AbsoluteName\<close>.
\<close>

record ext =
  unicodeLower :: "string \<Rightarrow> string"
  unicodeTitle :: "string \<Rightarrow> string"
  pslDomain :: "string \<Rightarrow> go_error + string"
  newRR :: "string \<Rightarrow> go_error + rr option"
  rrString :: "rr \<Rightarrow> string"
  splitDomainName :: "string \<Rightarrow> string list"
  dnsFqdn :: "string \<Rightarrow> string"
  typeToString :: "u16 \<Rightarrow> string"
  isDuplicate :: "rr \<Rightarrow> rr \<Rightarrow> bool"
  absoluteName :: "string \<Rightarrow> string \<Rightarrow> string"

text \<open>\<^verbatim>\<open>(*metav1.Time).IsZero\<close>: the nil pointer or the zero time.\<close>

definition timeIsZero :: "nat option \<Rightarrow> bool" where
  "timeIsZero t = (t = None \<or> t = Some 0)"

lemma ptr_simps [simp]:
  "ptr_ToBoolD None d = d" "ptr_ToBoolD (Some b) d = b"
  "ptr_ToBool None = False" "ptr_ToBool (Some b) = b"
  by (simp_all add: ptr_ToBoolD_def ptr_ToBool_def)

end
