(* ===== verification/Example_Ext.thy ===== *)
theory Example_Ext
  imports Dns_Api
begin

text \<open>
  One concrete choice of the third-party functions, for a world whose only registrable
  domain is \<^verbatim>\<open>example.org\<close>. The witnesses evaluate the models with it, which shows that
  the hypotheses of the theorems can hold together. Nothing else rests on it.
\<close>

definition exDomain :: string where
  "exDomain = ''example.org''"

definition exPsl :: "string \<Rightarrow> go_error + string" where
  "exPsl v = (if hasSuffix v exDomain then Inr exDomain else Inl (Errorf ''no rule''))"

definition exNS :: rr where
  "exNS = RR_NS \<lparr>h_Name = ''example.org.'', h_Rrtype = TypeNS, h_Class = 1, h_Ttl = 60\<rparr>
            ''ns0.example.org.''"

text \<open>A text form that names the owner, the type and the data of a record.\<close>

fun exData :: "rr \<Rightarrow> string" where
  "exData (RR_A _ a) = ipString a"
| "exData (RR_AAAA _ a) = ipString a"
| "exData (RR_CNAME _ t) = t"
| "exData (RR_MX _ p m) = itoa (unat p) @ '' '' @ m"
| "exData (RR_NS _ n) = n"
| "exData (RR_SRV _ p w q t) = itoa (unat p) @ '' '' @ itoa (unat w) @ '' '' @ itoa (unat q) @ '' '' @ t"
| "exData (RR_TXT _ ts) = strJoin ts '' ''"
| "exData (RR_SOA _ n m _ _ _ _ _) = n @ '' '' @ m"
| "exData (RR_Other _ _ d) = d"

definition exString :: "rr \<Rightarrow> string" where
  "exString r = h_Name (rrHeader r) @ '' '' @ drop 5 (rrGoType r) @ '' '' @ exData r"

definition exNewRR :: "string \<Rightarrow> go_error + rr option" where
  "exNewRR s =
     (if s = [] then Inr None
      else if s = exString exNS then Inr (Some exNS)
      else Inl (Errorf ''parse error''))"

definition exTypeToString :: "u16 \<Rightarrow> string" where
  "exTypeToString t =
     (if t = 1 then ''A'' else if t = 2 then ''NS'' else if t = 5 then ''CNAME''
      else if t = 15 then ''MX'' else if t = 16 then ''TXT'' else if t = 33 then ''SRV''
      else [])"

definition exFqdn :: "string \<Rightarrow> string" where
  "exFqdn s = (if hasSuffix s ''.'' then s else s @ ''.'')"

definition exExt :: ext where
  "exExt =
     \<lparr>unicodeLower = (\<lambda>s. s), unicodeTitle = (\<lambda>s. s), pslDomain = exPsl, newRR = exNewRR, rrString = exString,
      splitDomainName = (\<lambda>s. splitByte CHR ''.'' (trimSuffix s ''.'')), dnsFqdn = exFqdn,
      typeToString = exTypeToString, isDuplicate = (\<lambda>a b. a = b),
      absoluteName = (\<lambda>n z. if n = [] then z else n @ ''.'' @ z)\<rparr>"

lemma exExt_sel [simp]:
  "unicodeLower exExt = (\<lambda>s. s)" "unicodeTitle exExt = (\<lambda>s. s)" "pslDomain exExt = exPsl" "newRR exExt = exNewRR"
  "rrString exExt = exString"
  "splitDomainName exExt = (\<lambda>s. splitByte CHR ''.'' (trimSuffix s ''.''))"
  "dnsFqdn exExt = exFqdn" "typeToString exExt = exTypeToString"
  "isDuplicate exExt = (\<lambda>a b. a = b)"
  "absoluteName exExt = (\<lambda>n z. if n = [] then z else n @ ''.'' @ z)"
  by (simp_all add: exExt_def)

definition exA :: ARecord where
  "exA = \<lparr>a_Name = ''www.example.org'', a_Class = 0, a_Ttl = 0, a_Target = ''10.0.0.1''\<rparr>"

definition exRecord :: DNSRecord where
  "exRecord =
     \<lparr>r_TypeMeta = \<lparr>t_APIVersion = [], t_Kind = []\<rparr>,
      r_Meta = emptyMeta\<lparr>m_Name := ''www'', m_Namespace := ''default''\<rparr>,
      r_Spec = emptySpec\<lparr>sp_A := Some exA\<rparr>, r_Status = emptyStatus\<rparr>"

lemma toLower_no_unicode: "toLower (\<lambda>s. s) (toLower (\<lambda>s. s) v) = toLower (\<lambda>s. s) v"
  by (simp add: toLower_def o_def)

lemma toLower_no_unicode_dot:
  "toLower (\<lambda>s. s) (toLower (\<lambda>s. s) v @ ''.'') = toLower (\<lambda>s. s) v @ ''.''"
  by (simp add: toLower_def o_def)

end
