(* ===== verification/Webhook.thy ===== *)
theory Webhook
  imports Example_Ext
begin

text \<open>
  Component \<^verbatim>\<open>api/v1alpha1/dnsrecord_webhook.go\<close>: the defaulting webhook (\<^verbatim>\<open>Default\<close>
  and \<^verbatim>\<open>enforceFqdn\<close>) and the validating webhook (\<^verbatim>\<open>validate\<close> and the per-type
  checks). The lemmas say what defaulting establishes, that it is idempotent, and which
  records validation accepts.
\<close>

section \<open>Defaulting\<close>

definition enforceFqdn :: "ext \<Rightarrow> string \<Rightarrow> string" where
  "enforceFqdn E v0 =
     (let v = toLower (unicodeLower E) v0
      in case pslDomain E v of
           Inl _ \<Rightarrow> v
         | Inr d \<Rightarrow> if hasSuffix v d then v @ ''.'' else v)"

definition dflt :: "'a::zero \<Rightarrow> 'a \<Rightarrow> 'a" where
  "dflt d x = (if x = 0 then d else x)"

definition defaultA :: "ext \<Rightarrow> ARecord \<Rightarrow> ARecord" where
  "defaultA E a =
     a\<lparr>a_Class := dflt 1 (a_Class a), a_Ttl := dflt 3600 (a_Ttl a),
       a_Name := enforceFqdn E (a_Name a)\<rparr>"

definition defaultCNAME :: "ext \<Rightarrow> CNAMERecord \<Rightarrow> CNAMERecord" where
  "defaultCNAME E c =
     c\<lparr>cname_Class := dflt 1 (cname_Class c), cname_Ttl := dflt 3600 (cname_Ttl c),
       cname_Name := enforceFqdn E (cname_Name c),
       cname_Target := enforceFqdn E (cname_Target c)\<rparr>"

definition defaultTXT :: "ext \<Rightarrow> TXTRecord \<Rightarrow> TXTRecord" where
  "defaultTXT E t =
     t\<lparr>txt_Class := dflt 1 (txt_Class t), txt_Ttl := dflt 3600 (txt_Ttl t),
       txt_Name := enforceFqdn E (txt_Name t)\<rparr>"

definition defaultSRV :: "ext \<Rightarrow> SRVRecord \<Rightarrow> SRVRecord" where
  "defaultSRV E s =
     s\<lparr>srv_Class := dflt 1 (srv_Class s), srv_Ttl := dflt 3600 (srv_Ttl s),
       srv_Weight := dflt 1 (srv_Weight s), srv_Name := enforceFqdn E (srv_Name s),
       srv_Target := enforceFqdn E (srv_Target s)\<rparr>"

definition defaultMX :: "ext \<Rightarrow> MXRecord \<Rightarrow> MXRecord" where
  "defaultMX E m =
     m\<lparr>mx_Class := dflt 1 (mx_Class m), mx_Ttl := dflt 3600 (mx_Ttl m),
       mx_Preference := dflt 10 (mx_Preference m), mx_Name := enforceFqdn E (mx_Name m),
       mx_Target := enforceFqdn E (mx_Target m)\<rparr>"

text \<open>The switch of \<^verbatim>\<open>Default\<close>: the first kind that is set is defaulted, no other.\<close>

definition defaultKind :: "ext \<Rightarrow> DNSRecordSpec \<Rightarrow> DNSRecordSpec" where
  "defaultKind E sp =
     (case sp_A sp of Some a \<Rightarrow> sp\<lparr>sp_A := Some (defaultA E a)\<rparr> | None \<Rightarrow>
      case sp_CNAME sp of Some c \<Rightarrow> sp\<lparr>sp_CNAME := Some (defaultCNAME E c)\<rparr> | None \<Rightarrow>
      case sp_TXT sp of Some t \<Rightarrow> sp\<lparr>sp_TXT := Some (defaultTXT E t)\<rparr> | None \<Rightarrow>
      case sp_SRV sp of Some s \<Rightarrow> sp\<lparr>sp_SRV := Some (defaultSRV E s)\<rparr> | None \<Rightarrow>
      case sp_MX sp of Some m \<Rightarrow> sp\<lparr>sp_MX := Some (defaultMX E m)\<rparr> | None \<Rightarrow> sp)"

definition defaultSpec :: "ext \<Rightarrow> DNSRecordSpec \<Rightarrow> DNSRecordSpec" where
  "defaultSpec E sp =
     defaultKind E (if sp_Active sp = None then sp\<lparr>sp_Active := ptr_Bool True\<rparr> else sp)"

definition Default :: "ext \<Rightarrow> DNSRecord \<Rightarrow> DNSRecord" where
  "Default E r = r\<lparr>r_Spec := defaultSpec E (r_Spec r)\<rparr>"

section \<open>Validation\<close>

text \<open>\<^verbatim>\<open>field.Error\<close>: the path, the offending value and the message.\<close>

datatype badValue = BadString string | BadStrings "string list" | BadSpec DNSRecordSpec

record FieldError =
  fe_Path :: "string list"
  fe_Value :: badValue
  fe_Detail :: string

definition fieldInvalid :: "string list \<Rightarrow> badValue \<Rightarrow> string \<Rightarrow> FieldError" where
  "fieldInvalid p v d = \<lparr>fe_Path = p, fe_Value = v, fe_Detail = d\<rparr>"

definition validateA :: "ARecord \<Rightarrow> FieldError list" where
  "validateA r =
     (if \<not> hasSuffix (a_Name r) ''.'' then
        [fieldInvalid [''spec'', ''a'', ''name''] (BadString (a_Name r))
           ''name must be an absolute dns name (should ends with a dot)''] else []) @
     (if ParseIP (a_Target r) = [] \<or> a_Target r = [] then
        [fieldInvalid [''spec'', ''a'', ''target''] (BadString (a_Target r))
           ''A Record: target must be a valid ip address''] else [])"

definition validateCNAME :: "CNAMERecord \<Rightarrow> FieldError list" where
  "validateCNAME r =
     (if \<not> hasSuffix (cname_Name r) ''.'' then
        [fieldInvalid [''spec'', ''cname'', ''name''] (BadString (cname_Name r))
           ''name must be an absolute dns name (should ends with a dot)''] else []) @
     (if cname_Target r = [] then
        [fieldInvalid [''spec'', ''cname'', ''target''] (BadString (cname_Target r))
           ''SRV record: target is required''] else []) @
     (if \<not> hasSuffix (cname_Target r) ''.'' then
        [fieldInvalid [''spec'', ''cname'', ''target''] (BadString (cname_Target r))
           ''target must be an absolute dns name (should ends with a dot)''] else [])"

definition validateTXT :: "TXTRecord \<Rightarrow> FieldError list" where
  "validateTXT r =
     (if \<not> hasSuffix (txt_Name r) ''.'' then
        [fieldInvalid [''spec'', ''txt'', ''name''] (BadString (txt_Name r))
           ''name must be an absolute dns name (should ends with a dot)''] else []) @
     (if length (txt_Targets r) = 0 then
        [fieldInvalid [''spec'', ''txt'', ''targets''] (BadStrings (txt_Targets r))
           ''TXT Record: target cannot be empty''] else [])"

definition validateSRV :: "SRVRecord \<Rightarrow> FieldError list" where
  "validateSRV r =
     (if \<not> hasSuffix (srv_Name r) ''.'' then
        [fieldInvalid [''spec'', ''srv'', ''name''] (BadString (srv_Name r))
           ''must be an absolute dns name (should ends with a dot)''] else []) @
     (if srv_Target r = [] then
        [fieldInvalid [''spec'', ''srv'', ''target''] (BadString (srv_Target r))
           ''SRV record: target is required''] else []) @
     (if \<not> hasSuffix (srv_Target r) ''.'' then
        [fieldInvalid [''spec'', ''srv'', ''target''] (BadString (srv_Target r))
           ''must be an absolute dns name (should ends with a dot)''] else [])"

definition validateMX :: "MXRecord \<Rightarrow> FieldError list" where
  "validateMX r =
     (if \<not> hasSuffix (mx_Name r) ''.'' then
        [fieldInvalid [''spec'', ''mx'', ''name''] (BadString (mx_Name r))
           ''must be an absolute dns name (should ends with a dot)''] else []) @
     (if mx_Target r = [] then
        [fieldInvalid [''spec'', ''mx'', ''target''] (BadString (mx_Target r))
           ''MX Record: target cannot be empty''] else []) @
     (if \<not> hasSuffix (mx_Target r) ''.'' then
        [fieldInvalid [''spec'', ''mx'', ''target''] (BadString (mx_Target r))
           ''must be an absolute dns name (should ends with a dot)''] else [])"

definition validateSpec :: "ext \<Rightarrow> DNSRecordSpec \<Rightarrow> FieldError list" where
  "validateSpec E sp =
     (case sp_A sp of Some a \<Rightarrow> validateA a | None \<Rightarrow>
      case sp_CNAME sp of Some c \<Rightarrow> validateCNAME c | None \<Rightarrow>
      case sp_TXT sp of Some t \<Rightarrow> validateTXT t | None \<Rightarrow>
      case sp_SRV sp of Some s \<Rightarrow> validateSRV s | None \<Rightarrow>
      case sp_MX sp of Some m \<Rightarrow> validateMX m | None \<Rightarrow>
      if sp_Raw sp \<noteq> [] then
        (case newRR E (sp_Raw sp) of
           Inr (Some _) \<Rightarrow> []
         | _ \<Rightarrow> [fieldInvalid [''spec'', ''raw''] (BadString (sp_Raw sp))
                 ''failed to parse raw record''])
      else [fieldInvalid [''spec''] (BadSpec sp)
              ''neither a A, CNAME, TXT, SRV, MX or RAW record''])"

text \<open>\<^verbatim>\<open>apierrors.NewInvalid\<close>: the group and kind, the object's name, the field errors.\<close>

record InvalidError =
  ie_Group :: string
  ie_Kind :: string
  ie_Name :: string
  ie_Errors :: "FieldError list"

definition validate :: "ext \<Rightarrow> DNSRecord \<Rightarrow> InvalidError option" where
  "validate E r =
     (let errs = validateSpec E (r_Spec r)
      in if length errs = 0 then None
         else Some \<lparr>ie_Group = ''dns.linka.cloud'', ie_Kind = t_Kind (r_TypeMeta r),
                    ie_Name = m_Name (r_Meta r), ie_Errors = errs\<rparr>)"

definition ValidateCreate :: "ext \<Rightarrow> DNSRecord \<Rightarrow> InvalidError option" where
  "ValidateCreate E r = validate E r"

definition ValidateUpdate :: "ext \<Rightarrow> DNSRecord \<Rightarrow> DNSRecord \<Rightarrow> InvalidError option" where
  "ValidateUpdate E old r = validate E r"

definition ValidateDelete :: "ext \<Rightarrow> DNSRecord \<Rightarrow> InvalidError option" where
  "ValidateDelete E r = validate E r"

section \<open>What the code relies on\<close>

text \<open>
  \<^item> \<open>psl_suffix\<close>: the registrable domain that \<^verbatim>\<open>publicsuffix.Domain\<close> finds in a
    lower-case name is the end of that name (\<^verbatim>\<open>www.example.com\<close> gives
    \<^verbatim>\<open>example.com\<close>);
  \<^item> \<open>psl_no_dot\<close>: a name with a trailing dot has an empty last label and is refused;
  \<^item> \<open>lower_stable\<close>: lower-casing a lower-case name, with or without a final dot,
    changes nothing.
\<close>

definition psl_suffix :: "ext \<Rightarrow> bool" where
  "psl_suffix E \<longleftrightarrow>
     (\<forall>v d. pslDomain E (toLower (unicodeLower E) v) = Inr d
        \<longrightarrow> hasSuffix (toLower (unicodeLower E) v) d)"

definition psl_no_dot :: "ext \<Rightarrow> bool" where
  "psl_no_dot E \<longleftrightarrow> (\<forall>v. \<exists>e. pslDomain E (v @ ''.'') = Inl e)"

definition lower_stable :: "ext \<Rightarrow> bool" where
  "lower_stable E \<longleftrightarrow>
     (\<forall>v. let w = toLower (unicodeLower E) v
          in toLower (unicodeLower E) w = w \<and> toLower (unicodeLower E) (w @ ''.'') = w @ ''.'')"

section \<open>What admission accepts\<close>

text \<open>
  The records a user may submit, stated on the submitted object: the names must be
  absolute already or have a registrable domain, whatever their case.
\<close>

definition nameOk :: "ext \<Rightarrow> string \<Rightarrow> bool" where
  "nameOk E v \<longleftrightarrow>
     hasSuffix (toLower (unicodeLower E) v) ''.''
     \<or> (case pslDomain E (toLower (unicodeLower E) v) of Inl _ \<Rightarrow> False | Inr _ \<Rightarrow> True)"

definition submittable :: "ext \<Rightarrow> DNSRecordSpec \<Rightarrow> bool" where
  "submittable E sp \<longleftrightarrow>
     (case sp_A sp of Some a \<Rightarrow> nameOk E (a_Name a) \<and> ParseIP (a_Target a) \<noteq> [] | None \<Rightarrow>
      case sp_CNAME sp of Some c \<Rightarrow> nameOk E (cname_Name c) \<and> nameOk E (cname_Target c) | None \<Rightarrow>
      case sp_TXT sp of Some t \<Rightarrow> nameOk E (txt_Name t) \<and> txt_Targets t \<noteq> [] | None \<Rightarrow>
      case sp_SRV sp of Some s \<Rightarrow> nameOk E (srv_Name s) \<and> nameOk E (srv_Target s) | None \<Rightarrow>
      case sp_MX sp of Some m \<Rightarrow> nameOk E (mx_Name m) \<and> nameOk E (mx_Target m) | None \<Rightarrow>
      sp_Raw sp \<noteq> [] \<and> (\<exists>r. newRR E (sp_Raw sp) = Inr (Some r)))"

section \<open>Lemmas\<close>

lemma enforceFqdn_dot_iff:
  assumes "psl_suffix E"
  shows "hasSuffix (enforceFqdn E v) ''.'' \<longleftrightarrow> nameOk E v"
proof (cases "pslDomain E (toLower (unicodeLower E) v)")
  case (Inl e)
  then show ?thesis by (simp add: enforceFqdn_def nameOk_def Let_def)
next
  case (Inr d)
  with assms have "hasSuffix (toLower (unicodeLower E) v) d"
    by (simp add: psl_suffix_def)
  with Inr show ?thesis by (simp add: enforceFqdn_def nameOk_def Let_def)
qed

lemma submittable_Active [simp]: "submittable E (sp\<lparr>sp_Active := b\<rparr>) = submittable E sp"
  by (simp add: submittable_def cong: option.case_cong)

lemma enforceFqdn_idem:
  assumes "psl_no_dot E" and "lower_stable E"
  shows "enforceFqdn E (enforceFqdn E v) = enforceFqdn E v"
proof -
  let ?w = "toLower (unicodeLower E) v"
  have low: "toLower (unicodeLower E) ?w = ?w" "toLower (unicodeLower E) (?w @ ''.'') = ?w @ ''.''"
    using assms(2) by (simp_all add: lower_stable_def Let_def)
  obtain e where "pslDomain E (?w @ ''.'') = Inl e"
    using assms(1) by (auto simp: psl_no_dot_def)
  with low show ?thesis
    by (simp add: enforceFqdn_def Let_def split: sum.splits)
qed

lemma enforceFqdn_absolute:
  assumes "psl_suffix E" and "pslDomain E (toLower (unicodeLower E) v) = Inr d"
  shows "enforceFqdn E v = toLower (unicodeLower E) v @ ''.''"
  using assms by (simp add: enforceFqdn_def Let_def psl_suffix_def)

lemma dflt_nonzero [simp]: "d \<noteq> 0 \<Longrightarrow> dflt d x \<noteq> 0"
  by (simp add: dflt_def)

lemma dflt_idem [simp]: "dflt d (dflt d x) = dflt d x"
  by (simp add: dflt_def)

lemmas default_defs =
  defaultA_def defaultCNAME_def defaultTXT_def defaultSRV_def defaultMX_def

lemma defaultKind_Active [simp]: "sp_Active (defaultKind E sp) = sp_Active sp"
  by (simp add: defaultKind_def split: option.splits)

lemma defaultKind_idem:
  assumes "psl_no_dot E" and "lower_stable E"
  shows "defaultKind E (defaultKind E sp) = defaultKind E sp"
  by (simp add: defaultKind_def default_defs enforceFqdn_idem [OF assms] split: option.splits)

lemma defaultSpec_Active: "sp_Active (defaultSpec E sp) = Some (ptr_ToBoolD (sp_Active sp) True)"
  by (cases "sp_Active sp") (simp_all add: defaultSpec_def ptr_Bool_def)

lemma defaultSpec_idem:
  assumes "psl_no_dot E" and "lower_stable E"
  shows "defaultSpec E (defaultSpec E sp) = defaultSpec E sp"
  using defaultSpec_Active [of E sp]
  by (simp add: defaultSpec_def defaultKind_idem [OF assms])

lemma Default_frame [simp]:
  "r_Meta (Default E r) = r_Meta r" "r_Status (Default E r) = r_Status r"
  "r_TypeMeta (Default E r) = r_TypeMeta r" "r_Spec (Default E r) = defaultSpec E (r_Spec r)"
  by (simp_all add: Default_def)

text \<open>Defaulting fills the kind it selects and leaves the choice of the kind as it was.\<close>

lemma defaultKind_fields:
  "map_option (\<lambda>_. ()) (sp_A (defaultKind E sp)) = map_option (\<lambda>_. ()) (sp_A sp)"
  "map_option (\<lambda>_. ()) (sp_CNAME (defaultKind E sp)) = map_option (\<lambda>_. ()) (sp_CNAME sp)"
  "map_option (\<lambda>_. ()) (sp_TXT (defaultKind E sp)) = map_option (\<lambda>_. ()) (sp_TXT sp)"
  "map_option (\<lambda>_. ()) (sp_SRV (defaultKind E sp)) = map_option (\<lambda>_. ()) (sp_SRV sp)"
  "map_option (\<lambda>_. ()) (sp_MX (defaultKind E sp)) = map_option (\<lambda>_. ()) (sp_MX sp)"
  "sp_Raw (defaultKind E sp) = sp_Raw sp"
  by (simp_all add: defaultKind_def split: option.splits)

lemma validate_None_iff: "validate E r = None \<longleftrightarrow> validateSpec E (r_Spec r) = []"
  by (simp add: validate_def Let_def)

text \<open>The accepted records of each kind.\<close>

lemma validateA_Nil:
  "validateA a = [] \<longleftrightarrow> hasSuffix (a_Name a) ''.'' \<and> ParseIP (a_Target a) \<noteq> []"
  by (auto simp: validateA_def)

lemma hasSuffix_not_Nil: "hasSuffix s ''.'' \<Longrightarrow> s \<noteq> []"
  by (auto simp: hasSuffix_def)

lemma validateCNAME_Nil:
  "validateCNAME c = [] \<longleftrightarrow> hasSuffix (cname_Name c) ''.'' \<and> hasSuffix (cname_Target c) ''.''"
  by (auto simp: validateCNAME_def dest: hasSuffix_not_Nil)

lemma validateTXT_Nil:
  "validateTXT t = [] \<longleftrightarrow> hasSuffix (txt_Name t) ''.'' \<and> txt_Targets t \<noteq> []"
  by (auto simp: validateTXT_def)

lemma validateSRV_Nil:
  "validateSRV s = [] \<longleftrightarrow> hasSuffix (srv_Name s) ''.'' \<and> hasSuffix (srv_Target s) ''.''"
  by (auto simp: validateSRV_def dest: hasSuffix_not_Nil)

lemma validateMX_Nil:
  "validateMX m = [] \<longleftrightarrow> hasSuffix (mx_Name m) ''.'' \<and> hasSuffix (mx_Target m) ''.''"
  by (auto simp: validateMX_def dest: hasSuffix_not_Nil)

lemmas validate_kind_Nil =
  validateA_Nil validateCNAME_Nil validateTXT_Nil validateSRV_Nil validateMX_Nil

lemma exExt_laws: "psl_suffix exExt" "psl_no_dot exExt" "lower_stable exExt"
  by (simp_all add: psl_suffix_def psl_no_dot_def lower_stable_def exPsl_def exDomain_def
      hasSuffix_iff toLower_no_unicode toLower_no_unicode_dot)

section \<open>Properties\<close>

text \<open>
  C26. Defaulting is idempotent: the API server may call the webhook again on an object it
  has already defaulted, and the reconcilers default what they read once more. It relies
  on the public suffix list refusing names with a trailing dot, since the code appends a
  dot whenever the list accepts the name.
\<close>

theorem Default_idempotent:
  assumes "psl_no_dot E" and "lower_stable E"
  shows "Default E (Default E r) = Default E r"
  by (simp add: Default_def defaultSpec_idem [OF assms])

theorem Default_idempotent_witness:
  "psl_no_dot exExt \<and> lower_stable exExt
   \<and> Default exExt (Default exExt exRecord) = Default exExt exRecord"
  using Default_idempotent [OF exExt_laws(2,3)] exExt_laws by simp

text \<open>
  C13. What the admission pipeline (defaulting, then validation) accepts, read off the
  submitted spec: the first kind set decides; its names must be absolute or have a
  registrable domain, an A target must be an IP address, a TXT record needs a text, and a
  raw record must parse. Nothing else is accepted.
\<close>

theorem admission_iff:
  assumes "psl_suffix E"
  shows "ValidateCreate E (Default E r) = None \<longleftrightarrow> submittable E (r_Spec r)"
proof -
  have "validateSpec E (defaultKind E sp) = [] \<longleftrightarrow> submittable E sp" for sp
    by (simp add: validateSpec_def defaultKind_def submittable_def default_defs validate_kind_Nil
        enforceFqdn_dot_iff [OF assms] split: option.splits sum.splits)
  then show ?thesis
    by (simp add: ValidateCreate_def validate_None_iff defaultSpec_def)
qed

theorem admission_iff_witness:
  "psl_suffix exExt \<and> ValidateCreate exExt (Default exExt exRecord) = None"
  using admission_iff [OF exExt_laws(1), of exRecord] exExt_laws(1)
  by (simp add: submittable_def exRecord_def exA_def nameOk_def exPsl_def exDomain_def toLower_def
      isASCII_def lowerByte_def hasSuffix_def emptySpec_def go_eval)

end
