(* ===== verification/Dns_Record.thy ===== *)
theory Dns_Record
  imports Webhook
begin

text \<open>
  Component \<^verbatim>\<open>pkg/record/record.go\<close>: the conversions \<^verbatim>\<open>FromRR\<close> and \<^verbatim>\<open>ToRR\<close> between
  DNS resource records and the custom resource, and \<^verbatim>\<open>Name\<close>. The lemmas give the round
  trips, the shape of generated object names, and that validated records convert.
\<close>

section \<open>Definitions\<close>

definition rec_APIVersion :: string where
  "rec_APIVersion = ''dns.linka.cloud/v1alpha1''"

definition rec_DNSRecord :: string where
  "rec_DNSRecord = ''DNSRecord''"

definition rec_DNSRecordList :: string where
  "rec_DNSRecordList = ''DNSRecordList''"

text \<open>
  \<^verbatim>\<open>groupversion_info.go\<close>: the group and version under which the package registers its two
  types, and the text of such a pair.
\<close>

record GroupVersion =
  gv_Group :: string
  gv_Version :: string

definition v1alpha1_GroupVersion :: GroupVersion where
  "v1alpha1_GroupVersion = \<lparr>gv_Group = ''dns.linka.cloud'', gv_Version = ''v1alpha1''\<rparr>"

definition gvString :: "GroupVersion \<Rightarrow> string" where
  "gvString gv = (if gv_Group gv = [] then gv_Version gv else gv_Group gv @ ''/'' @ gv_Version gv)"

definition registeredTypes :: "(GroupVersion \<times> string) list" where
  "registeredTypes = [(v1alpha1_GroupVersion, ''DNSRecord''), (v1alpha1_GroupVersion, ''DNSRecordList'')]"

text \<open>The object name \<^verbatim>\<open>FromRR\<close> derives from the owner name and the Go type.\<close>

definition fromRRName :: "ext \<Rightarrow> rr \<Rightarrow> string" where
  "fromRRName E r =
     (let n0 = trimSuffix (h_Name (rrHeader r)) ''.'';
          n1 = replaceAll n0 ''.'' ''-'';
          n2 = replaceAll n1 ''_'' '''';
          n3 = replaceAll n2 ''*'' ''wildcard''
      in if h_Rrtype (rrHeader r) \<noteq> TypeA
         then n3 @ ''-'' @ toLower (unicodeLower E) (trimPrefix (rrGoType r) ''*dns.'')
         else n3)"

fun fromRRSpec :: "ext \<Rightarrow> rr \<Rightarrow> DNSRecordSpec" where
  "fromRRSpec E (RR_A h a) =
     emptySpec\<lparr>sp_A := Some \<lparr>a_Name = h_Name h, a_Class = h_Class h, a_Ttl = h_Ttl h,
                              a_Target = ipString a\<rparr>\<rparr>"
| "fromRRSpec E (RR_CNAME h t) =
     emptySpec\<lparr>sp_CNAME := Some \<lparr>cname_Name = h_Name h, cname_Class = h_Class h,
                                  cname_Ttl = h_Ttl h, cname_Target = t\<rparr>\<rparr>"
| "fromRRSpec E (RR_SRV h p w q t) =
     emptySpec\<lparr>sp_SRV := Some \<lparr>srv_Name = h_Name h, srv_Class = h_Class h, srv_Ttl = h_Ttl h,
                                srv_Priority = p, srv_Weight = w, srv_Port = q,
                                srv_Target = t\<rparr>\<rparr>"
| "fromRRSpec E (RR_TXT h ts) =
     emptySpec\<lparr>sp_TXT := Some \<lparr>txt_Name = h_Name h, txt_Class = h_Class h, txt_Ttl = h_Ttl h,
                                txt_Targets = ts\<rparr>\<rparr>"
| "fromRRSpec E (RR_MX h p m) =
     emptySpec\<lparr>sp_MX := Some \<lparr>mx_Name = h_Name h, mx_Class = h_Class h, mx_Ttl = h_Ttl h,
                               mx_Preference = p, mx_Target = m\<rparr>\<rparr>"
| "fromRRSpec E r = emptySpec\<lparr>sp_Raw := rrString E r\<rparr>"

definition FromRR :: "ext \<Rightarrow> rr \<Rightarrow> DNSRecord" where
  "FromRR E r =
     \<lparr>r_TypeMeta = \<lparr>t_APIVersion = rec_APIVersion, t_Kind = rec_DNSRecord\<rparr>,
      r_Meta = emptyMeta\<lparr>m_Name := fromRRName E r\<rparr>,
      r_Spec = fromRRSpec E r, r_Status = emptyStatus\<rparr>"

definition mkHeader :: "string \<Rightarrow> u16 \<Rightarrow> u16 \<Rightarrow> u32 \<Rightarrow> RR_Header" where
  "mkHeader n t c l = \<lparr>h_Name = n, h_Rrtype = t, h_Class = c, h_Ttl = l\<rparr>"

text \<open>\<^verbatim>\<open>ToRR\<close>; its switch goes A, TXT, SRV, MX, CNAME, raw.\<close>

definition specToRR :: "ext \<Rightarrow> DNSRecordSpec \<Rightarrow> go_error + rr" where
  "specToRR E sp =
     (case sp_A sp of Some a \<Rightarrow>
        (let ip = ParseIP (a_Target a)
         in if ip = [] then Inl (Errorf (''invalid ip: '' @ a_Target a))
            else Inr (RR_A (mkHeader (a_Name a) TypeA (a_Class a) (a_Ttl a)) ip)) | None \<Rightarrow>
      case sp_TXT sp of Some t \<Rightarrow>
        (if length (txt_Targets t) = 0 then Inl (Errorf ''empty TXT record'')
         else Inr (RR_TXT (mkHeader (txt_Name t) TypeTXT (txt_Class t) (txt_Ttl t))
                     (txt_Targets t))) | None \<Rightarrow>
      case sp_SRV sp of Some s \<Rightarrow>
        (if srv_Target s = [] then Inl (Errorf (CHR 0x27 # ''target'' @ CHR 0x27 #
             '' is required for SRV Records''))
         else Inr (RR_SRV (mkHeader (srv_Name s) TypeSRV (srv_Class s) (srv_Ttl s))
                     (srv_Priority s) (srv_Weight s) (srv_Port s) (srv_Target s))) | None \<Rightarrow>
      case sp_MX sp of Some m \<Rightarrow>
        Inr (RR_MX (mkHeader (mx_Name m) TypeMX (mx_Class m) (mx_Ttl m))
               (mx_Preference m) (mx_Target m)) | None \<Rightarrow>
      case sp_CNAME sp of Some c \<Rightarrow>
        (if cname_Target c = [] then Inl (Errorf (CHR 0x27 # ''target'' @ CHR 0x27 #
             '' is required for CNAME Records''))
         else Inr (RR_CNAME (mkHeader (cname_Name c) TypeCNAME (cname_Class c) (cname_Ttl c))
                     (cname_Target c))) | None \<Rightarrow>
      if sp_Raw sp = [] then Inl (Errorf ''unknown record type'')
      else (case newRR E (sp_Raw sp) of
              Inl err \<Rightarrow> Inl err
            | Inr None \<Rightarrow> Inl (Errorf (''invalid record: '' @ CHR 0x27 # sp_Raw sp @ [CHR 0x27]))
            | Inr (Some r) \<Rightarrow> Inr r))"

definition ToRR :: "ext \<Rightarrow> DNSRecord \<Rightarrow> go_error + rr" where
  "ToRR E r = specToRR E (r_Spec r)"

text \<open>
  \<^verbatim>\<open>Name\<close>: in the raw case it calls \<^verbatim>\<open>rr.Header()\<close> also when \<^verbatim>\<open>NewRR\<close> returned no
  record and no error; \<open>None\<close> is that nil dereference.
\<close>

definition recName :: "ext \<Rightarrow> DNSRecord \<Rightarrow> string option" where
  "recName E r =
     (let sp = r_Spec r
      in case sp_A sp of Some a \<Rightarrow> Some (a_Name a) | None \<Rightarrow>
         case sp_TXT sp of Some t \<Rightarrow> Some (txt_Name t) | None \<Rightarrow>
         case sp_SRV sp of Some s \<Rightarrow> Some (srv_Name s) | None \<Rightarrow>
         case sp_MX sp of Some m \<Rightarrow> Some (mx_Name m) | None \<Rightarrow>
         case sp_CNAME sp of Some c \<Rightarrow> Some (cname_Name c) | None \<Rightarrow>
         (case newRR E (sp_Raw sp) of
            Inl _ \<Rightarrow> Some []
          | Inr None \<Rightarrow> None
          | Inr (Some rr) \<Rightarrow> Some (h_Name (rrHeader rr))))"

section \<open>Predicates\<close>

text \<open>The kinds set in a spec; the API allows several, the documentation one.\<close>

definition kindsSet :: "DNSRecordSpec \<Rightarrow> nat" where
  "kindsSet sp =
     of_bool (sp_A sp \<noteq> None) + of_bool (sp_CNAME sp \<noteq> None) + of_bool (sp_TXT sp \<noteq> None)
     + of_bool (sp_SRV sp \<noteq> None) + of_bool (sp_MX sp \<noteq> None)"

text \<open>
  Resource records that survive \<^verbatim>\<open>FromRR\<close> and \<^verbatim>\<open>ToRR\<close>: the header's type number fits
  the constructor, an A record holds an IPv4 address in its 16-byte form, texts and
  targets are not empty; the other types go through the raw text, which
  \<^verbatim>\<open>NewRR\<close> must read back.
\<close>

fun rrRegular :: "ext \<Rightarrow> rr \<Rightarrow> bool" where
  "rrRegular E (RR_A h a) \<longleftrightarrow> h_Rrtype h = TypeA \<and> length a = 16 \<and> To4 a \<noteq> []"
| "rrRegular E (RR_CNAME h t) \<longleftrightarrow> h_Rrtype h = TypeCNAME \<and> t \<noteq> []"
| "rrRegular E (RR_SRV h _ _ _ t) \<longleftrightarrow> h_Rrtype h = TypeSRV \<and> t \<noteq> []"
| "rrRegular E (RR_TXT h ts) \<longleftrightarrow> h_Rrtype h = TypeTXT \<and> ts \<noteq> []"
| "rrRegular E (RR_MX h _ _) \<longleftrightarrow> h_Rrtype h = TypeMX"
| "rrRegular E r \<longleftrightarrow> rrString E r \<noteq> [] \<and> newRR E (rrString E r) = Inr (Some r)"

section \<open>Lemmas\<close>

lemma mkHeader_sel [simp]:
  "h_Name (mkHeader n t c l) = n" "h_Rrtype (mkHeader n t c l) = t"
  "h_Class (mkHeader n t c l) = c" "h_Ttl (mkHeader n t c l) = l"
  by (simp_all add: mkHeader_def)

lemma mkHeader_header [simp]: "h_Rrtype h = t \<Longrightarrow> mkHeader (h_Name h) t (h_Class h) (h_Ttl h) = h"
  by (simp add: mkHeader_def)

lemma emptySpec_sel [simp]:
  "sp_Active emptySpec = None" "sp_A emptySpec = None" "sp_CNAME emptySpec = None"
  "sp_TXT emptySpec = None" "sp_SRV emptySpec = None" "sp_MX emptySpec = None"
  "sp_Raw emptySpec = []"
  by (simp_all add: emptySpec_def)

lemma ToRR_FromRR: "rrRegular E r \<Longrightarrow> ToRR E (FromRR E r) = Inr r"
  by (cases "(E, r)" rule: rrRegular.cases)
    (simp_all add: ToRR_def FromRR_def specToRR_def ParseIP_ipString_v4 Let_def,
      auto simp: ParseIP_ipString_v4)

lemma FromRR_registered:
  "(t_APIVersion (r_TypeMeta (FromRR E r)), t_Kind (r_TypeMeta (FromRR E r)))
     \<in> (\<lambda>(gv, kind). (gvString gv, kind)) ` set registeredTypes"
  by (simp add: FromRR_def rec_APIVersion_def rec_DNSRecord_def registeredTypes_def gvString_def
      v1alpha1_GroupVersion_def)

lemma fromRRName_chars:
  assumes "\<forall>t h d. r \<noteq> RR_Other t h d"
  shows "set (fromRRName E r) \<inter> {CHR ''.'', CHR ''_'', CHR ''*''} = {}"
proof -
  have low: "set (toLower (unicodeLower E) (trimPrefix (rrGoType r) ''*dns.''))
      \<inter> {CHR ''.'', CHR ''_'', CHR ''*''} = {}"
    using assms
    by (cases r) (simp_all add: trimPrefix_def hasPrefix_def toLower_def isASCII_def lowerByte_def
        Let_def char_eval)
  then show ?thesis
    by (auto simp: fromRRName_def Let_def set_replaceAll_single split: if_splits)
qed

lemma specToRR_A:
  "sp_A sp = Some a \<Longrightarrow> specToRR E sp = Inr r \<Longrightarrow>
     r = RR_A (mkHeader (a_Name a) TypeA (a_Class a) (a_Ttl a)) (ParseIP (a_Target a))
     \<and> ParseIP (a_Target a) \<noteq> []"
  by (auto simp: specToRR_def Let_def split: if_splits)

text \<open>With one kind set, the two switches (\<^verbatim>\<open>validate\<close> and \<^verbatim>\<open>ToRR\<close>) select the same one.\<close>

lemma kindsSet_cases:
  assumes "kindsSet sp \<le> 1"
  obtains (A) a where "sp_A sp = Some a" "sp_CNAME sp = None" "sp_TXT sp = None"
      "sp_SRV sp = None" "sp_MX sp = None"
  | (CNAME) c where "sp_A sp = None" "sp_CNAME sp = Some c" "sp_TXT sp = None"
      "sp_SRV sp = None" "sp_MX sp = None"
  | (TXT) t where "sp_A sp = None" "sp_CNAME sp = None" "sp_TXT sp = Some t"
      "sp_SRV sp = None" "sp_MX sp = None"
  | (SRV) s where "sp_A sp = None" "sp_CNAME sp = None" "sp_TXT sp = None"
      "sp_SRV sp = Some s" "sp_MX sp = None"
  | (MX) m where "sp_A sp = None" "sp_CNAME sp = None" "sp_TXT sp = None"
      "sp_SRV sp = None" "sp_MX sp = Some m"
  | (Raw) "sp_A sp = None" "sp_CNAME sp = None" "sp_TXT sp = None"
      "sp_SRV sp = None" "sp_MX sp = None"
  using assms
  by (cases "sp_A sp"; cases "sp_CNAME sp"; cases "sp_TXT sp"; cases "sp_SRV sp"; cases "sp_MX sp")
    (simp_all add: kindsSet_def)

lemma validate_ToRR:
  assumes "validate E r = None" and "kindsSet (r_Spec r) \<le> 1"
  shows "\<exists>rr. ToRR E r = Inr rr"
proof -
  have v: "validateSpec E (r_Spec r) = []"
    using assms(1) by (simp add: validate_None_iff)
  from assms(2) show ?thesis
    by (cases rule: kindsSet_cases)
      (use v in \<open>auto simp: validateSpec_def ToRR_def specToRR_def Let_def validate_kind_Nil
        dest: hasSuffix_not_Nil split: if_splits sum.splits option.splits\<close>)
qed

lemma ToRR_recName: "ToRR E r = Inr rr \<Longrightarrow> recName E r = Some (h_Name (rrHeader rr))"
  by (auto simp: ToRR_def specToRR_def recName_def Let_def split: option.splits if_splits sum.splits)

lemma validate_ToRR_name:
  assumes "validate E r = None" and "kindsSet (r_Spec r) = 1" and "ToRR E r = Inr rr"
  shows "hasSuffix (h_Name (rrHeader rr)) ''.''"
proof -
  have v: "validateSpec E (r_Spec r) = []"
    using assms(1) by (simp add: validate_None_iff)
  from assms(2) have "kindsSet (r_Spec r) \<le> 1" by simp
  then show ?thesis
    by (cases rule: kindsSet_cases)
      (use v assms(2,3) in \<open>auto simp: validateSpec_def ToRR_def specToRR_def Let_def kindsSet_def
        validate_kind_Nil split: if_splits\<close>)
qed

section \<open>Example objects\<close>

definition exValid :: DNSRecord where
  "exValid =
     exRecord\<lparr>r_Spec := emptySpec\<lparr>sp_A := Some \<lparr>a_Name = ''www.example.org.'', a_Class = 1,
        a_Ttl = 60, a_Target = ''10.0.0.1''\<rparr>\<rparr>\<rparr>"

definition exTwoKinds :: DNSRecord where
  "exTwoKinds =
     exRecord\<lparr>r_Spec := emptySpec\<lparr>
        sp_CNAME := Some \<lparr>cname_Name = ''www.example.org.'', cname_Class = 1, cname_Ttl = 60,
                          cname_Target = ''example.org.''\<rparr>,
        sp_TXT := Some \<lparr>txt_Name = ''www.example.org.'', txt_Class = 1, txt_Ttl = 60,
                        txt_Targets = []\<rparr>\<rparr>\<rparr>"

section \<open>Properties\<close>

text \<open>
  C15. Importing a resource record and converting the object back gives the same record,
  for A, CNAME, SRV, TXT and MX records through the typed fields and for every other type
  through the raw text, wherever that text parses back. The object carries the kind and the
  API version under which the package registers its type.
\<close>

theorem ToRR_FromRR_roundtrip:
  assumes "rrRegular E r"
  shows "ToRR E (FromRR E r) = Inr r
    \<and> (t_APIVersion (r_TypeMeta (FromRR E r)), t_Kind (r_TypeMeta (FromRR E r)))
        \<in> (\<lambda>(gv, kind). (gvString gv, kind)) ` set registeredTypes"
  using ToRR_FromRR [OF assms] FromRR_registered by simp

theorem ToRR_FromRR_roundtrip_witness:
  "rrRegular exExt exNS \<and> ToRR exExt (FromRR exExt exNS) = Inr exNS"
proof -
  have h: "rrRegular exExt exNS"
    by (simp add: exNewRR_def exString_def exNS_def)
  then show ?thesis using ToRR_FromRR_roundtrip [OF h] by simp
qed

text \<open>
  The object name \<^verbatim>\<open>FromRR\<close> derives from an owner name holds no dot, underscore or
  asterisk, the characters of DNS names that a Kubernetes object name may not have.
\<close>

lemma FromRR_name_chars:
  assumes "\<forall>t h d. r \<noteq> RR_Other t h d"
  shows "set (m_Name (r_Meta (FromRR E r))) \<inter> {CHR ''.'', CHR ''_'', CHR ''*''} = {}"
  using fromRRName_chars [OF assms] by (simp add: FromRR_def)

text \<open>
  C14. A record that validation accepts converts to a resource record, so the reconciler
  and the DNS server never meet an accepted object they cannot read, as long as at most
  one kind is set; a typed record then has an absolute owner name, and \<^verbatim>\<open>Name\<close> returns
  that owner name.
\<close>

theorem accepted_converts:
  assumes "ValidateCreate E r = None" and "kindsSet (r_Spec r) \<le> 1"
  shows "\<exists>rr. ToRR E r = Inr rr \<and> recName E r = Some (h_Name (rrHeader rr))
           \<and> (kindsSet (r_Spec r) = 1 \<longrightarrow> hasSuffix (h_Name (rrHeader rr)) ''.'')"
proof -
  from assms obtain rr where rr: "ToRR E r = Inr rr"
    using validate_ToRR by (auto simp: ValidateCreate_def)
  then show ?thesis
    using ToRR_recName [OF rr] validate_ToRR_name [OF _ _ rr] assms(1)
    by (auto simp: ValidateCreate_def)
qed

theorem accepted_converts_witness:
  "ValidateCreate exExt exValid = None \<and> kindsSet (r_Spec exValid) \<le> 1
   \<and> (\<exists>rr. ToRR exExt exValid = Inr rr \<and> hasSuffix (h_Name (rrHeader rr)) ''.'')"
proof -
  have h1: "ValidateCreate exExt exValid = None"
    by (simp add: ValidateCreate_def validate_None_iff validateSpec_def exValid_def validateA_Nil
        hasSuffix_def go_eval)
  have h2: "kindsSet (r_Spec exValid) = 1"
    by (simp add: kindsSet_def exValid_def)
  show ?thesis
    using accepted_converts [OF h1] h1 h2 by auto
qed

end
