(* ===== verification/Provider.thy ===== *)
theory Provider
  imports Dns_Record
begin

text \<open>
  Component \<^verbatim>\<open>pkg/provider\<close>: the \<^verbatim>\<open>Provider\<close> interface that the DNSRecord reconciler
  calls, the registry of factories (\<^verbatim>\<open>Register\<close>, \<^verbatim>\<open>New\<close>), the no-op CoreDNS provider
  and the factories of the four external providers. The interface is the locale
  \<open>provider_contract\<close>; the CoreDNS provider is interpreted here, the libdns provider
  in its own theory.
\<close>

section \<open>The interface\<close>

text \<open>\<^verbatim>\<open>ctrl.Result\<close>; the delay is in seconds.\<close>

record Result =
  res_Requeue :: bool
  res_RequeueAfter :: nat

definition result0 :: Result where
  "result0 = \<lparr>res_Requeue = False, res_RequeueAfter = 0\<rparr>"

text \<open>
  \<^verbatim>\<open>Reconcile(ctx, rec *DNSRecord) (ctrl.Result, bool, error)\<close>: the record is passed by
  reference, so its final state is part of the result; \<open>'w\<close> is the outside world that the
  call may change.
\<close>

type_synonym 'w provider =
  "DNSRecord \<Rightarrow> 'w \<Rightarrow> (Result \<times> bool \<times> go_error option) \<times> DNSRecord \<times> 'w"

text \<open>
  What the reconciler relies on: a provider touches nothing of the record but the provider
  name and the record ID of its status, reports no error together with \<^verbatim>\<open>ok\<close>, and leaves
  the record alone when it does not report \<^verbatim>\<open>ok\<close>.
\<close>

definition sameButBinding :: "DNSRecord \<Rightarrow> DNSRecord \<Rightarrow> bool" where
  "sameButBinding r r' \<longleftrightarrow>
     r' = r\<lparr>r_Status := (r_Status r)\<lparr>st_Provider := st_Provider (r_Status r'),
                                      st_ID := st_ID (r_Status r')\<rparr>\<rparr>"

locale provider_contract =
  fixes reconcile :: "DNSRecord \<Rightarrow> 'w \<Rightarrow> (Result \<times> bool \<times> go_error option) \<times> DNSRecord \<times> 'w"
  assumes binding_only: "reconcile r w = (out, r', w') \<Longrightarrow> sameButBinding r r'"
    and ok_no_error: "reconcile r w = ((res, True, err), r', w') \<Longrightarrow> err = None"
    and not_ok_same: "reconcile r w = ((res, False, err), r', w') \<Longrightarrow> r' = r"
begin

lemma spec_same: "reconcile r w = (out, r', w') \<Longrightarrow> r_Spec r' = r_Spec r"
  using binding_only unfolding sameButBinding_def
  by (metis DNSRecord.select_convs(3) DNSRecord.surjective DNSRecord.update_convs(4))

lemma meta_same: "reconcile r w = (out, r', w') \<Longrightarrow> r_Meta r' = r_Meta r"
  using binding_only unfolding sameButBinding_def
  by (metis DNSRecord.select_convs(2) DNSRecord.surjective DNSRecord.update_convs(4))

end

section \<open>Registry and factories\<close>

text \<open>
  A provider value: the no-op function of \<^verbatim>\<open>pkg/provider/coredns\<close>, or a libdns provider
  with its name, its client's credentials and whether the client is wrapped in
  \<^verbatim>\<open>syncClient\<close>.
\<close>

datatype clientConfig =
    CloudflareClient string
  | HetznerClient string
  | OvhClient string string string string
  | ScalewayClient string string

datatype providerVal = NoopProvider | LibdnsProvider string clientConfig bool

text \<open>A factory reads the environment (\<^verbatim>\<open>os.Getenv\<close>, which is empty for unset variables).\<close>

type_synonym getenv = "string \<Rightarrow> string"
type_synonym factory = "getenv \<Rightarrow> go_error + providerVal"
type_synonym registry = "(string, factory) fmap"

definition prov_Register :: "string \<Rightarrow> factory \<Rightarrow> registry \<Rightarrow> registry" where
  "prov_Register name f reg = fmupd name f reg"

definition prov_New :: "registry \<Rightarrow> getenv \<Rightarrow> string \<Rightarrow> go_error + providerVal" where
  "prov_New reg env name =
     (case fmlookup reg name of
        None \<Rightarrow> Inl (Errorf (name @ '': provider not found''))
      | Some f \<Rightarrow>
          (case f env of
             Inl e \<Rightarrow> Inl (Errorf (name @ '': '' @ error_text e))
           | Inr p \<Rightarrow> Inr p))"

definition emptyEnv :: "string \<Rightarrow> go_error" where
  "emptyEnv var = Errorf (''empty '' @ var @ '' environment variable'')"

definition corednsFactory :: factory where
  "corednsFactory env = Inr NoopProvider"

definition cloudflareFactory :: factory where
  "cloudflareFactory env =
     (let tk = env ''CLOUDFLARE_TOKEN''
      in if tk = [] then Inl (Errorf ''empty CF_TOKEN environment variable'')
         else Inr (LibdnsProvider ''cloudflare'' (CloudflareClient tk) False))"

definition hetznerFactory :: factory where
  "hetznerFactory env =
     (let t = env ''HETZNER_TOKEN''
      in if t = [] then Inl (emptyEnv ''HETZNER_TOKEN'')
         else Inr (LibdnsProvider ''hetzner'' (HetznerClient t) True))"

definition ovhFactory :: factory where
  "ovhFactory env =
     (let endpoint = env ''OVH_ENDPOINT''; appKey = env ''OVH_APPLICATION_KEY'';
          appSecret = env ''OVH_APPLICATION_SECRET''; consumerKey = env ''OVH_CONSUMER_KEY''
      in if endpoint = [] then Inl (emptyEnv ''OVH_ENDPOINT'')
         else if appKey = [] then Inl (emptyEnv ''OVH_APPLICATION_KEY'')
         else if appSecret = [] then Inl (emptyEnv ''OVH_APPLICATION_SECRET'')
         else if consumerKey = [] then Inl (emptyEnv ''OVH_CONSUMER_KEY'')
         else Inr (LibdnsProvider ''ovh'' (OvhClient endpoint appKey appSecret consumerKey) False))"

definition scalewayFactory :: factory where
  "scalewayFactory env =
     (let k = env ''SCALEWAY_SECRET_KEY''; orgid = env ''SCALEWAY_ORGANIZATION_ID''
      in if k = [] then Inl (emptyEnv ''SCALEWAY_SECRET_KEY'')
         else if orgid = [] then Inl (emptyEnv ''SCALEWAY_ORGANIZATION_ID'')
         else Inr (LibdnsProvider ''scaleway'' (ScalewayClient k orgid) False))"

text \<open>The registry after the package initialisers that \<^verbatim>\<open>cmd/k8s-dns/providers.go\<close> imports.\<close>

definition registry0 :: registry where
  "registry0 =
     prov_Register ''scaleway'' scalewayFactory (prov_Register ''ovh'' ovhFactory
       (prov_Register ''hetzner'' hetznerFactory (prov_Register ''cloudflare'' cloudflareFactory
         (prov_Register ''coredns'' corednsFactory fmempty))))"

text \<open>The no-op provider of \<^verbatim>\<open>pkg/provider/coredns/noop.go\<close>.\<close>

definition noop_Reconcile :: "'w provider" where
  "noop_Reconcile r w = ((result0, True, None), r, w)"

interpretation noop: provider_contract noop_Reconcile
  by unfold_locales (auto simp: noop_Reconcile_def sameButBinding_def)

section \<open>Lemmas\<close>

lemma sameButBinding_refl [simp]: "sameButBinding r r"
  by (simp add: sameButBinding_def)

lemma sameButBinding_status [simp]:
  "sameButBinding r (r\<lparr>r_Status := (r_Status r)\<lparr>st_Provider := p, st_ID := i\<rparr>\<rparr>)"
  by (simp add: sameButBinding_def)

text \<open>The environment variables a provider needs.\<close>

definition requiredEnv :: "string \<Rightarrow> string list option" where
  "requiredEnv name =
     (if name = ''coredns'' then Some []
      else if name = ''cloudflare'' then Some [''CLOUDFLARE_TOKEN'']
      else if name = ''hetzner'' then Some [''HETZNER_TOKEN'']
      else if name = ''ovh'' then
        Some [''OVH_ENDPOINT'', ''OVH_APPLICATION_KEY'', ''OVH_APPLICATION_SECRET'', ''OVH_CONSUMER_KEY'']
      else if name = ''scaleway'' then Some [''SCALEWAY_SECRET_KEY'', ''SCALEWAY_ORGANIZATION_ID'']
      else None)"

lemmas factory_defs =
  corednsFactory_def cloudflareFactory_def hetznerFactory_def ovhFactory_def scalewayFactory_def

section \<open>Properties\<close>

text \<open>
  C30. A provider can be created exactly when its name is one of the five registered ones
  and every environment variable it needs is set to a non-empty value; what is created
  carries the requested name, so the records it binds can be told from another provider's.
\<close>

theorem prov_New_iff:
  "((\<exists>p. prov_New registry0 env name = Inr p) \<longleftrightarrow>
      (\<exists>vars. requiredEnv name = Some vars \<and> list_all (\<lambda>v. env v \<noteq> []) vars))
   \<and> (\<forall>n c b. prov_New registry0 env name = Inr (LibdnsProvider n c b) \<longrightarrow> n = name)"
  by (auto simp: prov_New_def registry0_def prov_Register_def requiredEnv_def factory_defs Let_def
      split: if_splits)

theorem prov_New_iff_witness:
  "prov_New registry0 (\<lambda>v. ''secret'') ''hetzner''
     = Inr (LibdnsProvider ''hetzner'' (HetznerClient ''secret'') True)
   \<and> (\<exists>vars. requiredEnv ''hetzner'' = Some vars)"
  using prov_New_iff [of "\<lambda>v. ''secret''" "''hetzner''"]
  by (simp add: prov_New_def registry0_def prov_Register_def requiredEnv_def hetznerFactory_def)

end
