(* ===== verification/K8s_Client.thy ===== *)
theory K8s_Client
  imports Provider
begin

text \<open>
  The two ways in which the controllers act on the cluster: the controller-runtime client
  (a record of functions over the world; the API server is outside the sources) and the
  event recorder of \<^verbatim>\<open>pkg/recorder/recorder.go\<close>. A client can be instrumented with the
  list of its writes, and \<open>lawfulServer\<close> states the documented behaviour of an API server
  that does not fail.
\<close>

section \<open>Client\<close>

text \<open>\<^verbatim>\<open>client.Client\<close> on \<^verbatim>\<open>DNSRecord\<close>s: \<^verbatim>\<open>Get\<close>, \<^verbatim>\<open>List\<close> in a namespace, and the four writes.\<close>

record 'w kclient =
  k_Get :: "NamespacedName \<Rightarrow> 'w \<Rightarrow> (go_error + DNSRecord) \<times> 'w"
  k_List :: "string \<Rightarrow> 'w \<Rightarrow> (go_error + DNSRecord list) \<times> 'w"
  k_Create :: "DNSRecord \<Rightarrow> 'w \<Rightarrow> go_error option \<times> 'w"
  k_Update :: "DNSRecord \<Rightarrow> 'w \<Rightarrow> go_error option \<times> 'w"
  k_Delete :: "DNSRecord \<Rightarrow> 'w \<Rightarrow> go_error option \<times> 'w"
  k_StatusUpdate :: "DNSRecord \<Rightarrow> 'w \<Rightarrow> go_error option \<times> 'w"

datatype kwrite = KCreate DNSRecord | KUpdate DNSRecord | KDelete DNSRecord | KStatus DNSRecord

definition logged :: "('a \<Rightarrow> 'w \<Rightarrow> 'b \<times> 'w) \<Rightarrow> ('a \<Rightarrow> 'l list) \<Rightarrow> 'a \<Rightarrow> 'w \<times> 'l list \<Rightarrow> 'b \<times> 'w \<times> 'l list" where
  "logged f note a = (\<lambda>(w, l). case f a w of (x, w1) \<Rightarrow> (x, (w1, l @ note a)))"

definition logK :: "'w kclient \<Rightarrow> ('w \<times> kwrite list) kclient" where
  "logK K =
     \<lparr>k_Get = logged (k_Get K) (\<lambda>_. []), k_List = logged (k_List K) (\<lambda>_. []),
      k_Create = logged (k_Create K) (\<lambda>r. [KCreate r]),
      k_Update = logged (k_Update K) (\<lambda>r. [KUpdate r]),
      k_Delete = logged (k_Delete K) (\<lambda>r. [KDelete r]),
      k_StatusUpdate = logged (k_StatusUpdate K) (\<lambda>r. [KStatus r])\<rparr>"

text \<open>An operation that knows nothing of the log.\<close>

definition liftW :: "('a \<Rightarrow> 'w \<Rightarrow> 'b \<times> 'w) \<Rightarrow> 'a \<Rightarrow> 'w \<times> 'l \<Rightarrow> 'b \<times> 'w \<times> 'l" where
  "liftW f a = (\<lambda>(w, l). case f a w of (x, w1) \<Rightarrow> (x, (w1, l)))"

definition keyOf :: "DNSRecord \<Rightarrow> NamespacedName" where
  "keyOf r = \<lparr>nn_Namespace = m_Namespace (r_Meta r), nn_Name = m_Name (r_Meta r)\<rparr>"

text \<open>
  The API server without failures, over the objects it holds. \<^verbatim>\<open>Update\<close> and
  \<^verbatim>\<open>Status().Update\<close> succeed for the current resource version and give the object a new
  one. \<^verbatim>\<open>Update\<close> takes the metadata and the spec, except for what the server itself keeps:
  the UID, the deletion timestamp and the status (the resource has the status subresource);
  an object whose deletion was requested disappears when its last finalizer goes.
  \<^verbatim>\<open>Status().Update\<close> takes the status only.
\<close>

definition withRV :: "string \<Rightarrow> DNSRecord \<Rightarrow> DNSRecord" where
  "withRV rv r = r\<lparr>r_Meta := (r_Meta r)\<lparr>m_ResourceVersion := rv\<rparr>\<rparr>"

definition serverUpdate :: "DNSRecord \<Rightarrow> DNSRecord \<Rightarrow> DNSRecord" where
  "serverUpdate r0 r =
     r\<lparr>r_Status := r_Status r0,
       r_Meta := (r_Meta r)\<lparr>m_UID := m_UID (r_Meta r0),
                            m_DeletionTimestamp := m_DeletionTimestamp (r_Meta r0)\<rparr>\<rparr>"

definition deletionRequested :: "DNSRecord \<Rightarrow> bool" where
  "deletionRequested r \<longleftrightarrow> \<not> timeIsZero (m_DeletionTimestamp (r_Meta r))"

definition currentFor :: "DNSRecord \<Rightarrow> DNSRecord option \<Rightarrow> bool" where
  "currentFor r x \<longleftrightarrow>
     (case x of None \<Rightarrow> False | Some r0 \<Rightarrow> m_ResourceVersion (r_Meta r) = m_ResourceVersion (r_Meta r0))"

definition lawfulServer :: "'w kclient \<Rightarrow> ('w \<Rightarrow> NamespacedName \<Rightarrow> DNSRecord option) \<Rightarrow> bool" where
  "lawfulServer K get \<longleftrightarrow>
     (\<forall>n w. k_Get K n w =
        ((case get w n of None \<Rightarrow> Inl (ApiNotFound (nn_Name n)) | Some r \<Rightarrow> Inr r), w))
     \<and> (\<forall>r w. currentFor r (get w (keyOf r)) \<longrightarrow>
          (\<exists>w' rv. k_Update K r w = (None, w')
             \<and> get w' = (get w)(keyOf r :=
                 if deletionRequested (the (get w (keyOf r))) \<and> m_Finalizers (r_Meta r) = []
                 then None else Some (withRV rv (serverUpdate (the (get w (keyOf r))) r)))))
     \<and> (\<forall>r w. currentFor r (get w (keyOf r)) \<longrightarrow>
          (\<exists>w' rv. k_StatusUpdate K r w = (None, w')
             \<and> get w' = (get w)(keyOf r \<mapsto>
                 withRV rv ((the (get w (keyOf r)))\<lparr>r_Status := r_Status r\<rparr>))))"

text \<open>
  Creation gives the object a UID and an empty status; deletion removes an object without
  finalizers and marks any other with a deletion timestamp.
\<close>

definition serverCreate :: "string \<Rightarrow> DNSRecord \<Rightarrow> DNSRecord" where
  "serverCreate uid r =
     r\<lparr>r_Status := emptyStatus, r_Meta := (r_Meta r)\<lparr>m_UID := uid, m_DeletionTimestamp := None\<rparr>\<rparr>"

definition markDeleted :: "nat \<Rightarrow> DNSRecord \<Rightarrow> DNSRecord" where
  "markDeleted t r =
     (if deletionRequested r then r
      else r\<lparr>r_Meta := (r_Meta r)\<lparr>m_DeletionTimestamp := Some (Suc t)\<rparr>\<rparr>)"

definition lawfulCRUD :: "'w kclient \<Rightarrow> ('w \<Rightarrow> NamespacedName \<Rightarrow> DNSRecord option) \<Rightarrow> bool" where
  "lawfulCRUD K get \<longleftrightarrow>
     lawfulServer K get
     \<and> (\<forall>r w. get w (keyOf r) = None \<longrightarrow>
          (\<exists>w' uid rv. k_Create K r w = (None, w')
             \<and> get w' = (get w)(keyOf r \<mapsto> withRV rv (serverCreate uid r))))
     \<and> (\<forall>r w. get w (keyOf r) = None \<longrightarrow> k_Delete K r w = (Some (ApiNotFound (m_Name (r_Meta r))), w))
     \<and> (\<forall>r w x. get w (keyOf r) = Some x \<longrightarrow>
          (\<exists>w' t rv. k_Delete K r w = (None, w')
             \<and> get w' = (get w)(keyOf r :=
                 if m_Finalizers (r_Meta x) = [] then None else Some (withRV rv (markDeleted t x)))))"

section \<open>Events\<close>

text \<open>
  \<^verbatim>\<open>strings.Title\<close> on bytes: a letter that follows a separator becomes upper case; an
  ASCII separator is anything but a letter, a digit or the underscore. Other strings go
  through the tables of package \<^verbatim>\<open>unicode\<close>.
\<close>

definition isSeparatorByte :: "char \<Rightarrow> bool" where
  "isSeparatorByte c =
     (let n = (of_char c :: nat)
      in \<not> (48 \<le> n \<and> n \<le> 57 \<or> 65 \<le> n \<and> n \<le> 90 \<or> 97 \<le> n \<and> n \<le> 122 \<or> n = 95))"

definition titleByte :: "char \<Rightarrow> char" where
  "titleByte c =
     (let n = (of_char c :: nat) in if 97 \<le> n \<and> n \<le> 122 then char_of (n - 32) else c)"

fun titleFrom :: "char \<Rightarrow> string \<Rightarrow> string" where
  "titleFrom prev [] = []"
| "titleFrom prev (c # cs) = (if isSeparatorByte prev then titleByte c else c) # titleFrom c cs"

definition strTitle :: "(string \<Rightarrow> string) \<Rightarrow> string \<Rightarrow> string" where
  "strTitle uni s = (if isASCII s then titleFrom CHR '' '' s else uni s)"

text \<open>\<^verbatim>\<open>record.EventRecorder\<close>: object, type, reason, message; \<^verbatim>\<open>Eventf\<close> has arguments too.\<close>

record ('o, 'w) EventRecorder =
  er_Event :: "'o \<Rightarrow> string \<Rightarrow> string \<Rightarrow> string \<Rightarrow> 'w \<Rightarrow> 'w"
  er_Eventf :: "'o \<Rightarrow> string \<Rightarrow> string \<Rightarrow> string \<Rightarrow> string list \<Rightarrow> 'w \<Rightarrow> 'w"

definition EventTypeNormal :: string where "EventTypeNormal = ''Normal''"
definition EventTypeWarning :: string where "EventTypeWarning = ''Warning''"

definition rec_Event :: "ext \<Rightarrow> ('o, 'w) EventRecorder \<Rightarrow> 'o \<Rightarrow> string \<Rightarrow> string \<Rightarrow> 'w \<Rightarrow> 'w" where
  "rec_Event E R obj reason msg w =
     er_Event R obj EventTypeNormal (strTitle (unicodeTitle E) reason) msg w"

definition rec_Eventf ::
  "ext \<Rightarrow> ('o, 'w) EventRecorder \<Rightarrow> 'o \<Rightarrow> string \<Rightarrow> string \<Rightarrow> string list \<Rightarrow> 'w \<Rightarrow> 'w" where
  "rec_Eventf E R obj reason msg args w =
     er_Eventf R obj EventTypeNormal (strTitle (unicodeTitle E) reason) msg args w"

definition rec_Warn :: "ext \<Rightarrow> ('o, 'w) EventRecorder \<Rightarrow> 'o \<Rightarrow> string \<Rightarrow> string \<Rightarrow> 'w \<Rightarrow> 'w" where
  "rec_Warn E R obj reason msg w =
     er_Event R obj EventTypeWarning (strTitle (unicodeTitle E) reason) msg w"

definition rec_Warnf ::
  "ext \<Rightarrow> ('o, 'w) EventRecorder \<Rightarrow> 'o \<Rightarrow> string \<Rightarrow> string \<Rightarrow> string list \<Rightarrow> 'w \<Rightarrow> 'w" where
  "rec_Warnf E R obj reason msg args w =
     er_Eventf R obj EventTypeWarning (strTitle (unicodeTitle E) reason) msg args w"

definition rec_EmitEvent ::
  "ext \<Rightarrow> ('o, 'w) EventRecorder \<Rightarrow> 'o \<Rightarrow> string \<Rightarrow> go_error option \<Rightarrow> bool \<Rightarrow> 'w \<Rightarrow> 'w" where
  "rec_EmitEvent E R obj opName err ignoreSuccess w =
     (case err of
        None \<Rightarrow> if \<not> ignoreSuccess then rec_Event E R obj (opName @ ''Success'') (opName @ '' success'') w
                else w
      | Some e \<Rightarrow> rec_Warn E R obj (opName @ ''Failure'') (error_text e) w)"

definition liftER :: "('o, 'w) EventRecorder \<Rightarrow> ('o, 'w \<times> 'l) EventRecorder" where
  "liftER R =
     \<lparr>er_Event = (\<lambda>ob t r m (w, l). (er_Event R ob t r m w, l)),
      er_Eventf = (\<lambda>ob t r m a (w, l). (er_Eventf R ob t r m a w, l))\<rparr>"

section \<open>Lemmas\<close>

lemma logK_sel [simp]:
  "k_Get (logK K) = logged (k_Get K) (\<lambda>_. [])" "k_List (logK K) = logged (k_List K) (\<lambda>_. [])"
  "k_Create (logK K) = logged (k_Create K) (\<lambda>r. [KCreate r])"
  "k_Update (logK K) = logged (k_Update K) (\<lambda>r. [KUpdate r])"
  "k_Delete (logK K) = logged (k_Delete K) (\<lambda>r. [KDelete r])"
  "k_StatusUpdate (logK K) = logged (k_StatusUpdate K) (\<lambda>r. [KStatus r])"
  by (simp_all add: logK_def)

lemma logged_apply [simp]:
  "logged f note a (w, l) = (case f a w of (x, w1) \<Rightarrow> (x, (w1, l @ note a)))"
  by (simp add: logged_def)

lemma liftW_apply [simp]: "liftW f a (w, l) = (case f a w of (x, w1) \<Rightarrow> (x, (w1, l)))"
  by (simp add: liftW_def)

lemma liftER_events [simp]:
  "rec_Event E (liftER R) ob reason msg (w, l) = (rec_Event E R ob reason msg w, l)"
  "rec_Warn E (liftER R) ob reason msg (w, l) = (rec_Warn E R ob reason msg w, l)"
  by (simp_all add: rec_Event_def rec_Warn_def liftER_def)

lemma lawful_Get:
  "lawfulServer K get \<Longrightarrow> k_Get K n w =
     ((case get w n of None \<Rightarrow> Inl (ApiNotFound (nn_Name n)) | Some r \<Rightarrow> Inr r), w)"
  unfolding lawfulServer_def by blast

lemma lawful_Update:
  assumes "lawfulServer K get" and "get w (keyOf r) = Some r0"
    and "m_ResourceVersion (r_Meta r) = m_ResourceVersion (r_Meta r0)"
  obtains w' rv where "k_Update K r w = (None, w')"
    and "get w' = (get w)(keyOf r :=
           if deletionRequested r0 \<and> m_Finalizers (r_Meta r) = []
           then None else Some (withRV rv (serverUpdate r0 r)))"
proof -
  have "currentFor r (get w (keyOf r))" using assms(2,3) by (simp add: currentFor_def)
  then obtain w' rv where "k_Update K r w = (None, w')"
    "get w' = (get w)(keyOf r := if deletionRequested (the (get w (keyOf r))) \<and> m_Finalizers (r_Meta r) = []
                 then None else Some (withRV rv (serverUpdate (the (get w (keyOf r))) r)))"
    using assms(1) unfolding lawfulServer_def by blast
  then show thesis unfolding assms(2) option.sel by (rule that)
qed

lemma lawful_Status:
  assumes "lawfulServer K get" and "get w (keyOf r) = Some r0"
    and "m_ResourceVersion (r_Meta r) = m_ResourceVersion (r_Meta r0)"
  obtains w' rv where "k_StatusUpdate K r w = (None, w')"
    and "get w' = (get w)(keyOf r \<mapsto> withRV rv (r0\<lparr>r_Status := r_Status r\<rparr>))"
proof -
  have "currentFor r (get w (keyOf r))" using assms(2,3) by (simp add: currentFor_def)
  then obtain w' rv where "k_StatusUpdate K r w = (None, w')"
    "get w' = (get w)(keyOf r \<mapsto> withRV rv ((the (get w (keyOf r)))\<lparr>r_Status := r_Status r\<rparr>))"
    using assms(1) unfolding lawfulServer_def by blast
  then show thesis using that assms(2) by simp
qed

lemma keyOf_update [simp]:
  "keyOf (r\<lparr>r_Spec := s\<rparr>) = keyOf r" "keyOf (r\<lparr>r_Status := t\<rparr>) = keyOf r"
  "keyOf (withRV rv r) = keyOf r" "keyOf (serverUpdate r0 r) = keyOf r"
  by (simp_all add: keyOf_def withRV_def serverUpdate_def)

lemma withRV_sel [simp]:
  "r_Spec (withRV rv r) = r_Spec r" "r_Status (withRV rv r) = r_Status r"
  "m_Finalizers (r_Meta (withRV rv r)) = m_Finalizers (r_Meta r)"
  "m_DeletionTimestamp (r_Meta (withRV rv r)) = m_DeletionTimestamp (r_Meta r)"
  "m_UID (r_Meta (withRV rv r)) = m_UID (r_Meta r)"
  "m_Annotations (r_Meta (withRV rv r)) = m_Annotations (r_Meta r)"
  "m_OwnerReferences (r_Meta (withRV rv r)) = m_OwnerReferences (r_Meta r)"
  "m_ResourceVersion (r_Meta (withRV rv r)) = rv"
  "deletionRequested (withRV rv r) = deletionRequested r"
  by (simp_all add: withRV_def deletionRequested_def)

lemma serverUpdate_sel [simp]:
  "r_Spec (serverUpdate r0 r) = r_Spec r" "r_Status (serverUpdate r0 r) = r_Status r0"
  "m_Finalizers (r_Meta (serverUpdate r0 r)) = m_Finalizers (r_Meta r)"
  "m_Annotations (r_Meta (serverUpdate r0 r)) = m_Annotations (r_Meta r)"
  "m_OwnerReferences (r_Meta (serverUpdate r0 r)) = m_OwnerReferences (r_Meta r)"
  "m_DeletionTimestamp (r_Meta (serverUpdate r0 r)) = m_DeletionTimestamp (r_Meta r0)"
  "deletionRequested (serverUpdate r0 r) = deletionRequested r0"
  by (simp_all add: serverUpdate_def deletionRequested_def)

section \<open>A server in memory\<close>

text \<open>Used by the witnesses: a list of objects beside whatever else the world holds.\<close>

definition memGet :: "DNSRecord list \<times> 'z \<Rightarrow> NamespacedName \<Rightarrow> DNSRecord option" where
  "memGet w n = find (\<lambda>r. keyOf r = n) (fst w)"

definition memReplace :: "DNSRecord \<Rightarrow> (DNSRecord \<Rightarrow> DNSRecord) \<Rightarrow> DNSRecord list \<Rightarrow> DNSRecord list" where
  "memReplace r f xs = map (\<lambda>x. if keyOf x = keyOf r then f x else x) xs"

definition memK :: "(DNSRecord list \<times> 'z) kclient" where
  "memK =
     \<lparr>k_Get = (\<lambda>n w. ((case memGet w n of None \<Rightarrow> Inl (ApiNotFound (nn_Name n)) | Some r \<Rightarrow> Inr r), w)),
      k_List = (\<lambda>ns w. (Inr (filter (\<lambda>r. m_Namespace (r_Meta r) = ns) (fst w)), w)),
      k_Create = (\<lambda>r w. if memGet w (keyOf r) = None then (None, (fst w @ [serverCreate ''u'' r], snd w))
                        else (Some (Errorf ''already exists''), w)),
      k_Update = (\<lambda>r w. (None,
        (if (case memGet w (keyOf r) of None \<Rightarrow> False | Some x \<Rightarrow> deletionRequested x)
            \<and> m_Finalizers (r_Meta r) = []
         then filter (\<lambda>x. keyOf x \<noteq> keyOf r) (fst w)
         else memReplace r (\<lambda>x. serverUpdate x r) (fst w), snd w))),
      k_Delete = (\<lambda>r w.
        (case memGet w (keyOf r) of
           None \<Rightarrow> (Some (ApiNotFound (m_Name (r_Meta r))), w)
         | Some x \<Rightarrow> (None,
             (if m_Finalizers (r_Meta x) = [] then filter (\<lambda>y. keyOf y \<noteq> keyOf r) (fst w)
              else memReplace r (markDeleted 1) (fst w), snd w)))),
      k_StatusUpdate = (\<lambda>r w. (None, (memReplace r (\<lambda>x. x\<lparr>r_Status := r_Status r\<rparr>) (fst w), snd w)))\<rparr>"

lemma find_filter_key:
  "find (\<lambda>r. keyOf r = n) (filter (\<lambda>x. keyOf x \<noteq> k) xs) =
     (if n = k then None else find (\<lambda>r. keyOf r = n) xs)"
  by (induction xs) auto

lemma find_memReplace:
  assumes "\<And>x. keyOf x = keyOf r \<Longrightarrow> keyOf (f x) = keyOf r"
  shows "find (\<lambda>x. keyOf x = n) (memReplace r f xs) =
     (if n = keyOf r then map_option f (find (\<lambda>x. keyOf x = n) xs) else find (\<lambda>x. keyOf x = n) xs)"
  using assms by (induction xs) (auto simp: memReplace_def)

lemma withRV_same [simp]: "withRV (m_ResourceVersion (r_Meta r)) r = r"
  by (simp add: withRV_def)

lemma keyOf_server [simp]: "keyOf (serverCreate uid r) = keyOf r" "keyOf (markDeleted t r) = keyOf r"
  by (simp_all add: keyOf_def serverCreate_def markDeleted_def)

lemma memK_lawful: "lawfulServer memK memGet"
  unfolding lawfulServer_def
proof (intro conjI allI impI)
  fix r and w :: "DNSRecord list \<times> 'a"
  assume "currentFor r (memGet w (keyOf r))"
  then obtain x where x: "memGet w (keyOf r) = Some x" by (auto simp: currentFor_def split: option.splits)
  show "\<exists>w' rv. k_Update memK r w = (None, w') \<and> memGet w' = (memGet w)(keyOf r :=
      if deletionRequested (the (memGet w (keyOf r))) \<and> m_Finalizers (r_Meta r) = []
      then None else Some (withRV rv (serverUpdate (the (memGet w (keyOf r))) r)))"
    using x by (intro exI [of _ "snd (k_Update memK r w)"] exI [of _ "m_ResourceVersion (r_Meta (serverUpdate x r))"])
      (simp add: memK_def, auto simp: memGet_def fun_eq_iff find_filter_key find_memReplace)
  show "\<exists>w' rv. k_StatusUpdate memK r w = (None, w') \<and> memGet w' = (memGet w)(keyOf r \<mapsto>
      withRV rv ((the (memGet w (keyOf r)))\<lparr>r_Status := r_Status r\<rparr>))"
    using x by (intro exI [of _ "snd (k_StatusUpdate memK r w)"] exI [of _ "m_ResourceVersion (r_Meta x)"])
      (simp add: memK_def, auto simp: memGet_def fun_eq_iff find_memReplace withRV_def)
qed (simp add: memK_def)

lemma memK_CRUD: "lawfulCRUD memK memGet"
  unfolding lawfulCRUD_def
proof (intro conjI allI impI memK_lawful)
  fix r and w :: "DNSRecord list \<times> 'a"
  assume n: "memGet w (keyOf r) = None"
  have "find (\<lambda>x. keyOf x = k) (xs @ [serverCreate u r])
      = (if k = keyOf r then Some (serverCreate u r) else find (\<lambda>x. keyOf x = k) xs)"
    if "find (\<lambda>x. keyOf x = keyOf r) xs = None" for k xs u
    using that by (induction xs) (auto split: if_splits)
  then show "\<exists>w' uid rv. k_Create memK r w = (None, w') \<and> memGet w' = (memGet w)(keyOf r \<mapsto> withRV rv (serverCreate uid r))"
    using n by (intro exI [of _ "snd (k_Create memK r w)"] exI [of _ "''u''"]
        exI [of _ "m_ResourceVersion (r_Meta (serverCreate ''u'' r))"])
      (simp add: memK_def, auto simp: memGet_def fun_eq_iff)
  show "k_Delete memK r w = (Some (ApiNotFound (m_Name (r_Meta r))), w)"
    using n by (simp add: memK_def)
next
  fix r x and w :: "DNSRecord list \<times> 'a"
  assume x: "memGet w (keyOf r) = Some x"
  then show "\<exists>w' t rv. k_Delete memK r w = (None, w') \<and> memGet w' = (memGet w)(keyOf r :=
      if m_Finalizers (r_Meta x) = [] then None else Some (withRV rv (markDeleted t x)))"
    by (intro exI [of _ "snd (k_Delete memK r w)"] exI [of _ 1]
        exI [of _ "m_ResourceVersion (r_Meta (markDeleted 1 x))"])
      (simp add: memK_def, auto simp: memGet_def fun_eq_iff find_filter_key find_memReplace)
qed

end
