(* ===== verification/Libdns.thy ===== *)
theory Libdns
  imports Provider
begin

text \<open>
  Component \<^verbatim>\<open>pkg/provider/libdns\<close>: the provider that keeps one DNS record of an external
  service in step with one \<^verbatim>\<open>DNSRecord\<close> (\<^verbatim>\<open>prov.Reconcile\<close>), its record format
  (\<^verbatim>\<open>makeRecord\<close>, \<^verbatim>\<open>FqdnRec\<close>, \<^verbatim>\<open>Fqdn\<close>, \<^verbatim>\<open>UnFqdn\<close>, \<^verbatim>\<open>Unquote\<close>). The service behind
  the libdns client is outside the sources: the client is a record of functions over the
  world, and what the theorems assume of it is the predicate \<open>lawfulClient\<close>.
\<close>

section \<open>Definitions\<close>

text \<open>\<^verbatim>\<open>libdns.Record\<close>, the fields the sources set or compare. A \<^verbatim>\<open>time.Duration\<close> is a
  64-bit number of nanoseconds.\<close>

record LRecord =
  l_ID :: string
  l_Type :: string
  l_Name :: string
  l_Value :: string
  l_TTL :: u64

text \<open>The interface \<^verbatim>\<open>Client\<close>: every call returns a list together with an error.\<close>

record 'w LClient =
  lc_GetRecords :: "string \<Rightarrow> 'w \<Rightarrow> (LRecord list \<times> go_error option) \<times> 'w"
  lc_AppendRecords :: "string \<Rightarrow> LRecord list \<Rightarrow> 'w \<Rightarrow> (LRecord list \<times> go_error option) \<times> 'w"
  lc_DeleteRecords :: "string \<Rightarrow> LRecord list \<Rightarrow> 'w \<Rightarrow> (LRecord list \<times> go_error option) \<times> 'w"

definition UnFqdn :: "string \<Rightarrow> string" where
  "UnFqdn name = trimSuffix name ''.''"

definition Unquote :: "string \<Rightarrow> string" where
  "Unquote name = trimRightByte CHR 0x22 (trimLeftByte CHR 0x22 (trimSpace name))"

definition Fqdn :: "ext \<Rightarrow> string \<Rightarrow> string \<Rightarrow> string" where
  "Fqdn E name zone =
     (if hasSuffix name (UnFqdn zone) then dnsFqdn E name
      else if \<not> hasSuffix name (dnsFqdn E zone) then absoluteName E name zone
      else name)"

definition FqdnRec :: "ext \<Rightarrow> LRecord \<Rightarrow> string \<Rightarrow> LRecord" where
  "FqdnRec E r zone =
     (let r1 = r\<lparr>l_Name := Fqdn E (l_Name r) zone\<rparr>
      in if l_Type r1 \<in> {''A'', ''AAAA'', ''TXT''} then
           r1\<lparr>l_Value := Unquote (replaceAll (l_Value r1) [CHR 0x22, CHR '' '', CHR 0x22] [])\<rparr>
         else if l_Type r1 \<in> {''CNAME'', ''MX'', ''NS'', ''SRV''} then
           r1\<lparr>l_Value := Unquote (Fqdn E (l_Value r1) zone)\<rparr>
         else r1)"

text \<open>\<^verbatim>\<open>time.Duration(ttl) * time.Second\<close> on 64 bits.\<close>

definition ttlDuration :: "u32 \<Rightarrow> u64" where
  "ttlDuration t = ucast t * 1000000000"

fun recordValue :: "rr \<Rightarrow> string" where
  "recordValue (RR_A _ a) = ipString a"
| "recordValue (RR_AAAA _ a) = ipString a"
| "recordValue (RR_CNAME _ t) = t"
| "recordValue (RR_MX _ p m) = itoa (unat p) @ '' '' @ m"
| "recordValue (RR_NS _ n) = n"
| "recordValue (RR_SRV _ p w q t) =
     itoa (unat p) @ '' '' @ itoa (unat w) @ '' '' @ itoa (unat q) @ '' '' @ t"
| "recordValue (RR_TXT _ ts) = strJoin ts []"
| "recordValue _ = []"

definition lib_makeRecord :: "ext \<Rightarrow> rr \<Rightarrow> string \<Rightarrow> string \<Rightarrow> LRecord" where
  "lib_makeRecord E r zone i =
     \<lparr>l_ID = i, l_Type = typeToString E (h_Rrtype (rrHeader r)), l_Name = h_Name (rrHeader r),
      l_Value = recordValue r, l_TTL = ttlDuration (h_Ttl (rrHeader r))\<rparr>"

text \<open>The two assignments to the status.\<close>

definition bind_status :: "DNSRecord \<Rightarrow> string \<Rightarrow> string \<Rightarrow> DNSRecord" where
  "bind_status r p i = r\<lparr>r_Status := (r_Status r)\<lparr>st_Provider := p, st_ID := i\<rparr>\<rparr>"

text \<open>The common end of creation and update: append one record and bind its ID.\<close>

definition lib_append ::
  "string \<Rightarrow> 'w LClient \<Rightarrow> string \<Rightarrow> LRecord \<Rightarrow> DNSRecord \<Rightarrow> 'w
     \<Rightarrow> (Result \<times> bool \<times> go_error option) \<times> DNSRecord \<times> 'w" where
  "lib_append name C zone want r w =
     (case lc_AppendRecords C zone [want] w of
        ((rs, Some e), w1) \<Rightarrow> ((result0, False, Some e), r, w1)
      | ((rs, None), w1) \<Rightarrow>
          (if length rs \<noteq> 1 then
             ((result0, False, Some (Errorf (''expected 1 record, got '' @ itoa (length rs)))), r, w1)
           else ((result0, True, None), bind_status r name (l_ID (hd rs)), w1)))"

text \<open>The branch for a deleted or inactive record.\<close>

definition lib_remove ::
  "'w LClient \<Rightarrow> string \<Rightarrow> LRecord option \<Rightarrow> DNSRecord \<Rightarrow> 'w
     \<Rightarrow> (Result \<times> bool \<times> go_error option) \<times> DNSRecord \<times> 'w" where
  "lib_remove C zone found r w =
     (case found of
        None \<Rightarrow> ((result0, True, None), bind_status r [] [], w)
      | Some v \<Rightarrow>
          (case lc_DeleteRecords C zone [v] w of
             ((_, Some e), w1) \<Rightarrow> ((result0, False, Some e), r, w1)
           | ((_, None), w1) \<Rightarrow> ((result0, True, None), bind_status r [] [], w1)))"

text \<open>The branch for a record that has to exist.\<close>

definition lib_ensure ::
  "ext \<Rightarrow> string \<Rightarrow> 'w LClient \<Rightarrow> string \<Rightarrow> LRecord \<Rightarrow> LRecord list \<Rightarrow> LRecord option \<Rightarrow> DNSRecord \<Rightarrow> 'w
     \<Rightarrow> (Result \<times> bool \<times> go_error option) \<times> DNSRecord \<times> 'w" where
  "lib_ensure E name C zone want recs found r w =
     (case found of
        None \<Rightarrow>
          (case find (\<lambda>v. Fqdn E (l_Name v) zone = l_Name want \<and> l_Type v = l_Type want
                           \<and> l_Value v = l_Value want) recs of
             Some v \<Rightarrow> ((result0, False, Some (Errorf (''record already exists: '' @ l_Name v))), r, w)
           | None \<Rightarrow> lib_append name C zone want r w)
      | Some v \<Rightarrow>
          (let v1 = FqdnRec E v zone
           in if l_Name v1 = l_Name want \<and> l_Value v1 = l_Value want \<and> l_Type v1 = l_Type want
                 \<and> l_TTL v1 = l_TTL want
              then ((result0, True, None), r, w)
              else (case lc_DeleteRecords C zone [v1] w of
                      ((_, Some e), w1) \<Rightarrow> ((result0, False, Some e), r, w1)
                    | ((_, None), w1) \<Rightarrow> lib_append name C zone want r w1)))"

text \<open>The zone of a resource record, or the error that stops the reconciliation.\<close>

definition lib_zone :: "ext \<Rightarrow> rr \<Rightarrow> go_error + string" where
  "lib_zone E rr =
     (let parts = splitDomainName E (h_Name (rrHeader rr))
      in if length parts < 2 then Inl (Errorf (''malformed name: '' @ h_Name (rrHeader rr)))
         else case pslDomain E (strJoin parts ''.'') of
                Inl e \<Rightarrow> Inl e
              | Inr d \<Rightarrow> Inr (dnsFqdn E d))"

definition lib_Reconcile :: "ext \<Rightarrow> string \<Rightarrow> 'w LClient \<Rightarrow> 'w provider" where
  "lib_Reconcile E name C r w =
     (if st_Provider (r_Status r) \<noteq> [] \<and> st_Provider (r_Status r) \<noteq> name
      then ((result0, False, None), r, w)
      else
        (case ToRR E r of
           Inl e \<Rightarrow> ((result0, False, Some e), r, w)
         | Inr rr \<Rightarrow>
             (case lib_zone E rr of
                Inl e \<Rightarrow> ((result0, False, Some e), r, w)
              | Inr zone \<Rightarrow>
                  (case lc_GetRecords C zone w of ((recs, err), w1) \<Rightarrow>
                     (if (case err of
                            None \<Rightarrow> False
                          | Some e \<Rightarrow>
                              \<not> strContains (toLower (unicodeLower E) (error_text e)) ''not found''
                              \<and> st_ID (r_Status r) \<noteq> [])
                      then ((result0, False, err), r, w1)
                      else
                        (let want = lib_makeRecord E rr zone (st_ID (r_Status r));
                             found = find (\<lambda>v. l_ID v = st_ID (r_Status r)) recs
                         in if \<not> timeIsZero (m_DeletionTimestamp (r_Meta r))
                               \<or> sp_Active (r_Spec r) = Some False
                            then lib_remove C zone found r w1
                            else lib_ensure E name C zone want recs found r w1))))))"

section \<open>Observing and trusting the service\<close>

text \<open>A client that also keeps the list of the writes it was asked for.\<close>

datatype lcall = LAppend string "LRecord list" | LDelete string "LRecord list"

definition logClient :: "'w LClient \<Rightarrow> ('w \<times> lcall list) LClient" where
  "logClient C =
     \<lparr>lc_GetRecords = (\<lambda>z (w, l). case lc_GetRecords C z w of (x, w1) \<Rightarrow> (x, (w1, l))),
      lc_AppendRecords = (\<lambda>z rs (w, l).
        case lc_AppendRecords C z rs w of (x, w1) \<Rightarrow> (x, (w1, l @ [LAppend z rs]))),
      lc_DeleteRecords = (\<lambda>z rs (w, l).
        case lc_DeleteRecords C z rs w of (x, w1) \<Rightarrow> (x, (w1, l @ [LDelete z rs])))\<rparr>"

text \<open>
  The documented behaviour of a libdns client that does not fail, over what the service
  holds (\<open>view w zone\<close>): \<^verbatim>\<open>GetRecords\<close> lists the zone, whose records all have an ID;
  \<^verbatim>\<open>AppendRecords\<close> adds the record under a new ID and returns it; \<^verbatim>\<open>DeleteRecords\<close>
  removes the record with the given ID.
\<close>

definition lawfulClient :: "'w LClient \<Rightarrow> ('w \<Rightarrow> string \<Rightarrow> LRecord list) \<Rightarrow> bool" where
  "lawfulClient C view \<longleftrightarrow>
     (\<forall>z w. lc_GetRecords C z w = ((view w z, None), w))
     \<and> (\<forall>z w. \<forall>v \<in> set (view w z). l_ID v \<noteq> [])
     \<and> (\<forall>z v w. \<exists>i w'. lc_AppendRecords C z [v] w = (([v\<lparr>l_ID := i\<rparr>], None), w')
           \<and> i \<noteq> [] \<and> i \<notin> l_ID ` set (view w z) \<and> view w' z = view w z @ [v\<lparr>l_ID := i\<rparr>])
     \<and> (\<forall>z v w. \<exists>rs w'. lc_DeleteRecords C z [v] w = ((rs, None), w')
           \<and> view w' z = filter (\<lambda>u. l_ID u \<noteq> l_ID v) (view w z))"

text \<open>A record this provider may handle, with its resource record and zone.\<close>

definition managed :: "ext \<Rightarrow> string \<Rightarrow> DNSRecord \<Rightarrow> rr \<Rightarrow> string \<Rightarrow> bool" where
  "managed E name r rr zone \<longleftrightarrow>
     st_Provider (r_Status r) \<in> {[], name} \<and> ToRR E r = Inr rr \<and> lib_zone E rr = Inr zone"

definition wantsGone :: "DNSRecord \<Rightarrow> bool" where
  "wantsGone r \<longleftrightarrow>
     \<not> timeIsZero (m_DeletionTimestamp (r_Meta r)) \<or> sp_Active (r_Spec r) = Some False"

text \<open>
  The writes one reconciliation of \<open>r\<close> may make: it deletes only the record bound to the
  status, appends only the record the spec asks for, and only while the record is wanted;
  a record bound to another provider causes no write at all.
\<close>

definition ownCall :: "ext \<Rightarrow> string \<Rightarrow> DNSRecord \<Rightarrow> lcall \<Rightarrow> bool" where
  "ownCall E name r c \<longleftrightarrow>
     st_Provider (r_Status r) \<in> {[], name}
     \<and> (case c of
          LDelete z vs \<Rightarrow> \<exists>v. vs = [v] \<and> l_ID v = st_ID (r_Status r)
        | LAppend z vs \<Rightarrow>
            \<not> wantsGone r
            \<and> (\<exists>rr. managed E name r rr z \<and> vs = [lib_makeRecord E rr z (st_ID (r_Status r))]))"

section \<open>The provider contract\<close>

lemma bind_status_sel [simp]:
  "r_Spec (bind_status r p i) = r_Spec r" "r_Meta (bind_status r p i) = r_Meta r"
  "r_TypeMeta (bind_status r p i) = r_TypeMeta r"
  "st_Provider (r_Status (bind_status r p i)) = p" "st_ID (r_Status (bind_status r p i)) = i"
  "st_Record (r_Status (bind_status r p i)) = st_Record (r_Status r)"
  "st_Active (r_Status (bind_status r p i)) = st_Active (r_Status r)"
  by (simp_all add: bind_status_def)

lemma bind_status_binding [simp]: "sameButBinding r (bind_status r p i)"
  by (simp add: bind_status_def)

lemma bind_status_bind [simp]: "bind_status (bind_status r p i) q j = bind_status r q j"
  by (simp add: bind_status_def)

lemma ToRR_bind_status [simp]: "ToRR E (bind_status r p i) = ToRR E r"
  by (simp add: ToRR_def)

text \<open>The three laws, stated once for a result triple.\<close>

definition providerOutcome ::
  "DNSRecord \<Rightarrow> (Result \<times> bool \<times> go_error option) \<times> DNSRecord \<times> 'w \<Rightarrow> bool" where
  "providerOutcome r x \<longleftrightarrow>
     sameButBinding r (fst (snd x)) \<and> (fst (snd (fst x)) \<longrightarrow> snd (snd (fst x)) = None)
     \<and> (\<not> fst (snd (fst x)) \<longrightarrow> fst (snd x) = r)"

lemma lib_append_outcome: "providerOutcome r (lib_append name C zone want r w)"
  by (auto simp: lib_append_def providerOutcome_def split: prod.splits option.splits)

lemma lib_remove_outcome: "providerOutcome r (lib_remove C zone found r w)"
  by (auto simp: lib_remove_def providerOutcome_def split: prod.splits option.splits)

lemma lib_ensure_outcome: "providerOutcome r (lib_ensure E name C zone want recs found r w)"
  using lib_append_outcome [of r name C zone want]
  by (auto simp: lib_ensure_def Let_def split: prod.splits option.splits)
    (auto simp: providerOutcome_def)

lemma lib_Reconcile_outcome: "providerOutcome r (lib_Reconcile E name C r w)"
  using lib_remove_outcome [of r C] lib_ensure_outcome [of r E name C]
  by (auto simp: lib_Reconcile_def Let_def split: prod.splits option.splits sum.splits)
    (auto simp: providerOutcome_def)

interpretation libdns: provider_contract "lib_Reconcile E name C" for E name C
proof unfold_locales
  fix r w out r' w'
  show "lib_Reconcile E name C r w = (out, r', w') \<Longrightarrow> sameButBinding r r'"
    using lib_Reconcile_outcome [of r E name C w] by (simp add: providerOutcome_def)
next
  fix r w res err r' w'
  show "lib_Reconcile E name C r w = ((res, True, err), r', w') \<Longrightarrow> err = None"
    using lib_Reconcile_outcome [of r E name C w] by (simp add: providerOutcome_def)
next
  fix r w res err r' w'
  show "lib_Reconcile E name C r w = ((res, False, err), r', w') \<Longrightarrow> r' = r"
    using lib_Reconcile_outcome [of r E name C w] by (simp add: providerOutcome_def)
qed

section \<open>Writes to the service\<close>

lemma logClient_sel:
  "lc_GetRecords (logClient C) z (w, l) =
     (case lc_GetRecords C z w of (x, w1) \<Rightarrow> (x, (w1, l)))"
  "lc_AppendRecords (logClient C) z rs (w, l) =
     (case lc_AppendRecords C z rs w of (x, w1) \<Rightarrow> (x, (w1, l @ [LAppend z rs])))"
  "lc_DeleteRecords (logClient C) z rs (w, l) =
     (case lc_DeleteRecords C z rs w of (x, w1) \<Rightarrow> (x, (w1, l @ [LDelete z rs])))"
  by (simp_all add: logClient_def)

lemma FqdnRec_ID [simp]: "l_ID (FqdnRec E v zone) = l_ID v"
  by (simp add: FqdnRec_def Let_def)

lemma lib_makeRecord_sel [simp]:
  "l_ID (lib_makeRecord E rr zone i) = i" "l_Name (lib_makeRecord E rr zone i) = h_Name (rrHeader rr)"
  "l_Value (lib_makeRecord E rr zone i) = recordValue rr"
  "l_Type (lib_makeRecord E rr zone i) = typeToString E (h_Rrtype (rrHeader rr))"
  "l_TTL (lib_makeRecord E rr zone i) = ttlDuration (h_Ttl (rrHeader rr))"
  by (simp_all add: lib_makeRecord_def)

lemma lib_append_log:
  "lib_append name (logClient C) zone want r (w, l) = (out, r', (w', l')) \<Longrightarrow>
     l' = l @ [LAppend zone [want]]"
  by (auto simp: lib_append_def logClient_sel split: prod.splits option.splits if_splits)

lemma lib_remove_log:
  "lib_remove (logClient C) zone found r (w, l) = (out, r', (w', l')) \<Longrightarrow>
     l' = l @ (case found of None \<Rightarrow> [] | Some v \<Rightarrow> [LDelete zone [v]])"
  by (auto simp: lib_remove_def logClient_sel split: prod.splits option.splits if_splits)

lemma lib_ensure_log:
  assumes "lib_ensure E name (logClient C) zone want recs found r (w, l) = (out, r', (w', l'))"
  shows "\<exists>cs. l' = l @ cs \<and> (cs = [] \<or> cs = [LAppend zone [want]]
     \<or> (\<exists>v. found = Some v \<and> (cs = [LDelete zone [FqdnRec E v zone]]
                \<or> cs = [LDelete zone [FqdnRec E v zone], LAppend zone [want]])))"
  using assms
  by (auto simp: lib_ensure_def logClient_sel Let_def dest!: lib_append_log
      split: prod.splits option.splits if_splits)

lemma lib_Reconcile_log:
  assumes "lib_Reconcile E name (logClient C) r (w, l) = (out, r', (w', l'))"
  shows "\<exists>cs. l' = l @ cs \<and> list_all (ownCall E name r) cs"
proof (cases "\<exists>rr zone. managed E name r rr zone")
  case False
  with assms have "l' = l"
    by (auto simp: lib_Reconcile_def managed_def split: sum.splits if_splits)
  then show ?thesis by simp
next
  case True
  then obtain rr zone where m: "managed E name r rr zone" by blast
  then have own: "st_Provider (r_Status r) \<in> {[], name}" and rr: "ToRR E r = Inr rr"
    and zone: "lib_zone E rr = Inr zone"
    by (simp_all add: managed_def)
  obtain recs err w1 where g: "lc_GetRecords C zone w = ((recs, err), w1)"
    by (metis surj_pair)
  define found where "found = find (\<lambda>v. l_ID v = st_ID (r_Status r)) recs"
  let ?want = "lib_makeRecord E rr zone (st_ID (r_Status r))"
  have fid: "l_ID v = st_ID (r_Status r)" if "found = Some v" for v
    using that unfolding found_def by (metis (mono_tags, lifting) find_Some_iff)
  consider (err) "l' = l"
    | (gone) "lib_remove (logClient C) zone found r (w1, l) = (out, r', (w', l'))"
    | (keep) "\<not> wantsGone r"
        "lib_ensure E name (logClient C) zone ?want recs found r (w1, l) = (out, r', (w', l'))"
    using assms own rr zone g unfolding found_def
    by (auto simp: lib_Reconcile_def logClient_sel wantsGone_def Let_def split: if_splits)
  then show ?thesis
  proof cases
    case err
    then show ?thesis by simp
  next
    case gone
    then show ?thesis
      using lib_remove_log [OF gone] fid own
      by (cases found) (simp_all add: ownCall_def)
  next
    case keep
    then show ?thesis
      using lib_ensure_log [OF keep(2)] fid own m
      by (elim exE conjE disjE) (auto simp: ownCall_def)
  qed
qed

end
