(* ===== verification/Libdns_Sync.thy ===== *)
theory Libdns_Sync
  imports Libdns
begin

text \<open>
  The libdns provider against a service that behaves as documented: creation, update and
  removal reach a state in which a further reconciliation changes nothing, a failed update
  is made good by the next one, and the writes of one reconciliation are confined to the
  record it owns. The theory also proves where this fails: a TXT value that the
  normalisation changes is replaced for ever, and a service that lists records without IDs
  can lose a record of somebody else.
\<close>

section \<open>Predicates\<close>

text \<open>The record the service must hold, without its ID.\<close>

definition wanted :: "ext \<Rightarrow> rr \<Rightarrow> string \<Rightarrow> LRecord" where
  "wanted E rr zone = lib_makeRecord E rr zone []"

text \<open>Normalising the wanted record changes nothing.\<close>

definition canonical :: "ext \<Rightarrow> rr \<Rightarrow> string \<Rightarrow> bool" where
  "canonical E rr zone \<longleftrightarrow> FqdnRec E (wanted E rr zone) zone = wanted E rr zone"

text \<open>The service holds, under the ID of the status, a record equal to the wanted one.\<close>

definition settled :: "ext \<Rightarrow> ('w \<Rightarrow> string \<Rightarrow> LRecord list) \<Rightarrow> rr \<Rightarrow> string \<Rightarrow> DNSRecord \<Rightarrow> 'w \<Rightarrow> bool" where
  "settled E view rr zone r w \<longleftrightarrow>
     (\<exists>v. find (\<lambda>v. l_ID v = st_ID (r_Status r)) (view w zone) = Some v
          \<and> (FqdnRec E v zone)\<lparr>l_ID := []\<rparr> = wanted E rr zone)"

text \<open>Some record of the zone already has the wanted name, type and value.\<close>

definition taken :: "ext \<Rightarrow> rr \<Rightarrow> string \<Rightarrow> LRecord list \<Rightarrow> bool" where
  "taken E rr zone recs \<longleftrightarrow>
     (\<exists>v \<in> set recs. Fqdn E (l_Name v) zone = l_Name (wanted E rr zone)
        \<and> l_Type v = l_Type (wanted E rr zone) \<and> l_Value v = l_Value (wanted E rr zone))"

section \<open>A service in memory\<close>

text \<open>Used by the witnesses only: a zone file per zone; an ID longer than all others is new.\<close>

definition memView :: "(string \<Rightarrow> LRecord list) \<Rightarrow> string \<Rightarrow> LRecord list" where
  "memView w z = filter (\<lambda>v. l_ID v \<noteq> []) (w z)"

definition memClient :: "(string \<Rightarrow> LRecord list) LClient" where
  "memClient =
     \<lparr>lc_GetRecords = (\<lambda>z w. ((memView w z, None), w)),
      lc_AppendRecords = (\<lambda>z vs w.
        (let new = map (\<lambda>v. v\<lparr>l_ID := CHR ''x'' # concat (map l_ID (w z))\<rparr>) vs
         in ((new, None), w(z := w z @ new)))),
      lc_DeleteRecords = (\<lambda>z vs w.
        ((vs, None), w(z := filter (\<lambda>u. l_ID u \<notin> l_ID ` set vs) (w z))))\<rparr>"

lemma memClient_lawful: "lawfulClient memClient memView"
proof -
  have fresh: "CHR ''x'' # concat (map l_ID xs) \<notin> l_ID ` set xs" for xs :: "LRecord list"
  proof
    assume "CHR ''x'' # concat (map l_ID xs) \<in> l_ID ` set xs"
    then obtain v where "v \<in> set xs" and eq: "l_ID v = CHR ''x'' # concat (map l_ID xs)" by auto
    then obtain ys zs where "xs = ys @ v # zs" by (auto simp: in_set_conv_decomp)
    then have "length (l_ID v) \<le> length (concat (map l_ID xs))" by simp
    with eq show False by simp
  qed
  have "CHR ''x'' # concat (map l_ID (w z)) \<notin> l_ID ` set (memView w z)" for w z
    using fresh [of "w z"] by (auto simp: memView_def image_iff)
  then show ?thesis
    by (auto simp: lawfulClient_def memClient_def memView_def Let_def intro!: filter_cong)
qed

section \<open>Lemmas\<close>

lemma lawful_get: "lawfulClient C view \<Longrightarrow> lc_GetRecords C z w = ((view w z, None), w)"
  by (simp add: lawfulClient_def)

lemma lawful_IDs: "lawfulClient C view \<Longrightarrow> v \<in> set (view w z) \<Longrightarrow> l_ID v \<noteq> []"
  by (simp add: lawfulClient_def)

lemma lawful_append:
  assumes "lawfulClient C view"
  obtains i w' where "lc_AppendRecords C z [v] w = (([v\<lparr>l_ID := i\<rparr>], None), w')"
    and "i \<noteq> []" and "i \<notin> l_ID ` set (view w z)" and "view w' z = view w z @ [v\<lparr>l_ID := i\<rparr>]"
  using assms unfolding lawfulClient_def by blast

lemma lawful_delete:
  assumes "lawfulClient C view"
  obtains rs w' where "lc_DeleteRecords C z [v] w = ((rs, None), w')"
    and "view w' z = filter (\<lambda>u. l_ID u \<noteq> l_ID v) (view w z)"
  using assms unfolding lawfulClient_def by blast

lemma lib_Reconcile_lawful:
  assumes "lawfulClient C view" and "managed E name r rr zone"
  shows "lib_Reconcile E name C r w =
     (let found = find (\<lambda>v. l_ID v = st_ID (r_Status r)) (view w zone)
      in if wantsGone r then lib_remove C zone found r w
         else lib_ensure E name C zone (lib_makeRecord E rr zone (st_ID (r_Status r)))
                (view w zone) found r w)"
  using assms by (auto simp: lib_Reconcile_def managed_def lawful_get wantsGone_def Let_def)

lemma FqdnRec_update_ID: "FqdnRec E (v\<lparr>l_ID := i\<rparr>) zone = (FqdnRec E v zone)\<lparr>l_ID := i\<rparr>"
  by (simp add: FqdnRec_def Let_def)

lemma makeRecord_wanted: "lib_makeRecord E rr zone i = (wanted E rr zone)\<lparr>l_ID := i\<rparr>"
  by (simp add: wanted_def lib_makeRecord_def)

lemma wanted_sel [simp]: "l_ID (wanted E rr zone) = []"
  by (simp add: wanted_def)

lemma LRecord_eq_but_ID:
  fixes u v :: LRecord
  shows "(u\<lparr>l_ID := []\<rparr> = v \<and> l_ID v = []) \<longleftrightarrow>
     l_ID v = [] \<and> l_Name u = l_Name v \<and> l_Value u = l_Value v \<and> l_Type u = l_Type v \<and> l_TTL u = l_TTL v"
  by (cases u; cases v) auto

lemma settled_noop:
  assumes "lawfulClient C view" and "managed E name r rr zone" and "\<not> wantsGone r"
    and "settled E view rr zone r w"
  shows "lib_Reconcile E name C r w = ((result0, True, None), r, w)"
proof -
  obtain v where v: "find (\<lambda>v. l_ID v = st_ID (r_Status r)) (view w zone) = Some v"
    and eq: "(FqdnRec E v zone)\<lparr>l_ID := []\<rparr> = wanted E rr zone"
    using assms(4) by (auto simp: settled_def)
  with LRecord_eq_but_ID [of "FqdnRec E v zone" "wanted E rr zone"] assms(3) show ?thesis
    by (simp add: lib_Reconcile_lawful [OF assms(1,2)] lib_ensure_def Let_def makeRecord_wanted)
qed

lemma find_fresh:
  "i \<notin> l_ID ` set xs \<Longrightarrow> find (\<lambda>v. l_ID v = i) (xs @ [v\<lparr>l_ID := i\<rparr>]) = Some (v\<lparr>l_ID := i\<rparr>)"
  by (induction xs) auto

lemma append_settles:
  assumes "lawfulClient C view" and "canonical E rr zone"
  shows "\<exists>i w'. lib_append name C zone (lib_makeRecord E rr zone j) r w
                  = ((result0, True, None), bind_status r name i, w')
                \<and> i \<noteq> [] \<and> settled E view rr zone (bind_status r name i) w'
                \<and> view w' zone = view w zone @ [(wanted E rr zone)\<lparr>l_ID := i\<rparr>]"
proof -
  let ?v = "lib_makeRecord E rr zone j"
  obtain i w' where a: "lc_AppendRecords C zone [?v] w = (([?v\<lparr>l_ID := i\<rparr>], None), w')"
    and i: "i \<noteq> []" "i \<notin> l_ID ` set (view w zone)"
    and vw: "view w' zone = view w zone @ [?v\<lparr>l_ID := i\<rparr>]"
    using lawful_append [OF assms(1)] by blast
  have "FqdnRec E (?v\<lparr>l_ID := i\<rparr>) zone = (wanted E rr zone)\<lparr>l_ID := i\<rparr>"
    using assms(2) by (simp add: FqdnRec_update_ID makeRecord_wanted canonical_def)
  then have "settled E view rr zone (bind_status r name i) w'"
    using find_fresh [OF i(2), of ?v] by (simp add: settled_def vw)
  then show ?thesis
    using a i(1) vw by (auto simp: lib_append_def makeRecord_wanted)
qed

lemma managed_bind [simp]:
  "managed E name (bind_status r p i) rr zone \<longleftrightarrow>
     p \<in> {[], name} \<and> ToRR E r = Inr rr \<and> lib_zone E rr = Inr zone"
  by (simp add: managed_def)

lemma wantsGone_bind [simp]: "wantsGone (bind_status r p i) = wantsGone r"
  by (simp add: wantsGone_def)

lemma not_taken_find:
  "\<not> taken E rr zone recs \<Longrightarrow>
     find (\<lambda>v. Fqdn E (l_Name v) zone = h_Name (rrHeader rr)
       \<and> l_Type v = typeToString E (h_Rrtype (rrHeader rr)) \<and> l_Value v = recordValue rr) recs = None"
  by (auto simp: taken_def find_None_iff wanted_def)

lemma ensure_settles:
  assumes "lawfulClient C view" and "managed E name r rr zone" and "\<not> wantsGone r"
    and "canonical E rr zone"
    and "\<not> taken E rr zone (view w zone) \<or> st_ID (r_Status r) \<in> l_ID ` set (view w zone)"
  shows "\<exists>r1 w1. lib_Reconcile E name C r w = ((result0, True, None), r1, w1)
           \<and> managed E name r1 rr zone \<and> \<not> wantsGone r1 \<and> settled E view rr zone r1 w1"
proof (cases "find (\<lambda>v. l_ID v = st_ID (r_Status r)) (view w zone)")
  case None
  then have nt: "\<not> taken E rr zone (view w zone)"
    using assms(5) by (auto simp: find_None_iff)
  obtain i w' where "lib_append name C zone (lib_makeRecord E rr zone (st_ID (r_Status r))) r w
      = ((result0, True, None), bind_status r name i, w')" "settled E view rr zone (bind_status r name i) w'"
    using append_settles [OF assms(1,4)] by blast
  with None nt assms(2,3) show ?thesis
    by (auto simp: lib_Reconcile_lawful [OF assms(1,2)] lib_ensure_def not_taken_find managed_def)
next
  case (Some v)
  show ?thesis
  proof (cases "settled E view rr zone r w")
    case True
    then show ?thesis using settled_noop [OF assms(1-3)] assms(2,3) by blast
  next
    case False
    obtain rs w1 where d: "lc_DeleteRecords C zone [FqdnRec E v zone] w = ((rs, None), w1)"
      using lawful_delete [OF assms(1)] by blast
    obtain i w' where "lib_append name C zone (lib_makeRecord E rr zone (st_ID (r_Status r))) r w1
        = ((result0, True, None), bind_status r name i, w')" "settled E view rr zone (bind_status r name i) w'"
      using append_settles [OF assms(1,4)] by blast
    with False Some d assms(2,3) LRecord_eq_but_ID [of "FqdnRec E v zone" "wanted E rr zone"]
    show ?thesis
      by (auto simp: lib_Reconcile_lawful [OF assms(1,2)] lib_ensure_def managed_def settled_def Let_def
          makeRecord_wanted)
  qed
qed

lemma remove_lawful:
  assumes "lawfulClient C view" and "managed E name r rr zone" and "wantsGone r"
  shows "\<exists>w1. lib_Reconcile E name C r w = ((result0, True, None), bind_status r [] [], w1)
           \<and> view w1 zone = filter (\<lambda>u. l_ID u \<noteq> st_ID (r_Status r)) (view w zone)"
proof (cases "find (\<lambda>v. l_ID v = st_ID (r_Status r)) (view w zone)")
  case None
  then have "filter (\<lambda>u. l_ID u \<noteq> st_ID (r_Status r)) (view w zone) = view w zone"
    by (auto simp: find_None_iff filter_id_conv)
  with None assms(3) show ?thesis
    by (simp add: lib_Reconcile_lawful [OF assms(1,2)] lib_remove_def)
next
  case (Some v)
  then have i: "l_ID v = st_ID (r_Status r)"
    by (metis (mono_tags, lifting) find_Some_iff)
  obtain rs w1 where "lc_DeleteRecords C zone [v] w = ((rs, None), w1)"
    "view w1 zone = filter (\<lambda>u. l_ID u \<noteq> l_ID v) (view w zone)"
    using lawful_delete [OF assms(1)] by blast
  with Some i assms(3) show ?thesis
    by (simp add: lib_Reconcile_lawful [OF assms(1,2)] lib_remove_def)
qed

lemma find_empty_ID: "lawfulClient C view \<Longrightarrow> find (\<lambda>v. l_ID v = []) (view w z) = None"
  by (auto simp: find_None_iff dest: lawful_IDs)

lemma ttlDuration_unat: "unat (ttlDuration t) = unat t * 1000000000"
proof -
  have "unat t < 2 ^ 32" using unsigned_less [of t, where 'a = nat] by simp
  then show ?thesis
    by (simp add: ttlDuration_def unat_word_ariths unsigned_ucast_eq take_bit_nat_eq_self)
qed

text \<open>The service gives the bound record back exactly as it was appended.\<close>

definition stored :: "ext \<Rightarrow> ('w \<Rightarrow> string \<Rightarrow> LRecord list) \<Rightarrow> rr \<Rightarrow> string \<Rightarrow> DNSRecord \<Rightarrow> 'w \<Rightarrow> bool" where
  "stored E view rr zone r w \<longleftrightarrow>
     find (\<lambda>v. l_ID v = st_ID (r_Status r)) (view w zone)
       = Some ((wanted E rr zone)\<lparr>l_ID := st_ID (r_Status r)\<rparr>)"

lemma append_stores:
  assumes "lawfulClient C view"
  shows "\<exists>i w'. lib_append name (logClient C) zone (lib_makeRecord E rr zone j) r (w, l)
                  = ((result0, True, None), bind_status r name i,
                     (w', l @ [LAppend zone [lib_makeRecord E rr zone j]]))
                \<and> stored E view rr zone (bind_status r name i) w'"
proof -
  let ?v = "lib_makeRecord E rr zone j"
  obtain i w' where a: "lc_AppendRecords C zone [?v] w = (([?v\<lparr>l_ID := i\<rparr>], None), w')"
    and i: "i \<notin> l_ID ` set (view w zone)" and vw: "view w' zone = view w zone @ [?v\<lparr>l_ID := i\<rparr>]"
    using lawful_append [OF assms] by blast
  then show ?thesis
    using find_fresh [OF i, of ?v]
    by (auto simp: lib_append_def logClient_sel stored_def makeRecord_wanted)
qed

section \<open>Example objects\<close>

definition exRR :: rr where
  "exRR = RR_A (mkHeader ''www.example.org.'' TypeA 1 60) (net_IPv4 10 0 0 1)"

definition exDeleted :: DNSRecord where
  "exDeleted = exValid\<lparr>r_Meta := (r_Meta exValid)\<lparr>m_DeletionTimestamp := Some 1\<rparr>\<rparr>"

definition exTXT :: DNSRecord where
  "exTXT =
     exRecord\<lparr>r_Spec := emptySpec\<lparr>sp_TXT := Some \<lparr>txt_Name = ''www.example.org.'', txt_Class = 1,
        txt_Ttl = 60, txt_Targets = ['' spf'']\<rparr>\<rparr>,
      r_Status := emptyStatus\<lparr>st_Provider := ''mem'', st_ID := ''x''\<rparr>\<rparr>"

definition exTXTRR :: rr where
  "exTXTRR = RR_TXT (mkHeader ''www.example.org.'' TypeTXT 1 60) ['' spf'']"

lemma exValid_managed: "managed exExt ''mem'' exValid exRR ''example.org.''"
  by (simp add: managed_def exValid_def exRecord_def exRR_def ToRR_def specToRR_def emptyStatus_def
      lib_zone_def trimSuffix_def hasSuffix_def exPsl_def exDomain_def exFqdn_def go_eval)

lemma exValid_wanted [simp]: "\<not> wantsGone exValid" "st_ID (r_Status exValid) = []"
  by (simp_all add: wantsGone_def exValid_def exRecord_def emptyMeta_def emptyStatus_def timeIsZero_def)

lemma exDotted: "dotted [10, 0, 0, 1] = ''10.0.0.1''"
proof -
  have d: "itoa 10 = ''10''" "itoa 0 = ''0''" "itoa (Suc 0) = ''1''"
    by (simp_all add: itoa_def toBase_small digitChar_def char_eval toBase.simps [of 10 10])
  show ?thesis by (simp add: dotted_def d)
qed

lemma exRR_canonical: "canonical exExt exRR ''example.org.''"
  by (simp add: canonical_def wanted_def lib_makeRecord_def FqdnRec_def exRR_def Fqdn_def UnFqdn_def
      trimSuffix_def hasSuffix_def exFqdn_def exTypeToString_def ipString_net_IPv4 exDotted
      Unquote_def trimSpace_def utf8Spaces_def replaceAll.simps char_eval trimLeftByte_def
      trimRightByte_def hasPrefix_def Let_def)

section \<open>Properties\<close>

text \<open>
  C7. Every write one reconciliation asks of the service is its own business: it deletes
  only the record whose ID the status holds, it appends only the record that the spec
  converts to, it appends only while the object is active and not being deleted, and it
  makes no write at all for an object bound to another provider.
\<close>

theorem lib_writes_owned:
  assumes "lib_Reconcile E name (logClient C) r (w, l) = (out, r', (w', l'))"
  shows "\<exists>cs. l' = l @ cs \<and> list_all (ownCall E name r) cs"
  using assms by (rule lib_Reconcile_log)

theorem lib_writes_owned_witness:
  "\<exists>out r' w' l' cs.
     lib_Reconcile exExt ''mem'' (logClient memClient) exValid (\<lambda>z. [], []) = (out, r', (w', l'))
     \<and> l' = cs \<and> list_all (ownCall exExt ''mem'' exValid) cs"
proof -
  obtain out r' w' l' where h:
    "lib_Reconcile exExt ''mem'' (logClient memClient) exValid (\<lambda>z. [], []) = (out, r', (w', l'))"
    by (metis surj_pair)
  obtain cs where "l' = [] @ cs" "list_all (ownCall exExt ''mem'' exValid) cs"
    using lib_writes_owned [OF h] by blast
  with h show ?thesis by (metis append_Nil)
qed

text \<open>
  C4. Convergence. Against a service that behaves as documented, one reconciliation of an
  object that has to exist succeeds and leaves the service with the wanted record under
  the ID in the status, whatever the state before: nothing created yet, a stale ID (for
  instance after an update whose second half failed), or an outdated record. A further
  reconciliation then changes neither the object nor the service. It needs that no other
  record of the zone already has that name, type and value, and that the record's text is
  in the normal form the comparison uses.
\<close>

theorem lib_converges:
  assumes "lawfulClient C view" and "managed E name r rr zone" and "\<not> wantsGone r"
    and "canonical E rr zone"
    and "\<not> taken E rr zone (view w zone) \<or> st_ID (r_Status r) \<in> l_ID ` set (view w zone)"
  shows "\<exists>r1 w1. lib_Reconcile E name C r w = ((result0, True, None), r1, w1)
           \<and> settled E view rr zone r1 w1
           \<and> lib_Reconcile E name C r1 w1 = ((result0, True, None), r1, w1)"
  using ensure_settles [OF assms] settled_noop [OF assms(1)] by blast

theorem lib_converges_witness:
  "\<exists>r1 w1. lib_Reconcile exExt ''mem'' memClient exValid (\<lambda>z. []) = ((result0, True, None), r1, w1)
      \<and> settled exExt memView exRR ''example.org.'' r1 w1"
  using lib_converges [OF memClient_lawful exValid_managed exValid_wanted(1) exRR_canonical, of "\<lambda>z. []"]
  by (auto simp: taken_def memView_def)

text \<open>
  C9. Removal. For an object that is being deleted or switched off, one reconciliation
  takes exactly the bound record out of the zone, clears the binding in the status and
  reports success, and a further reconciliation changes nothing, so the finalizer can go.
\<close>

theorem lib_removal:
  assumes "lawfulClient C view" and "managed E name r rr zone" and "wantsGone r"
  shows "\<exists>w1. lib_Reconcile E name C r w = ((result0, True, None), bind_status r [] [], w1)
           \<and> view w1 zone = filter (\<lambda>u. l_ID u \<noteq> st_ID (r_Status r)) (view w zone)
           \<and> lib_Reconcile E name C (bind_status r [] []) w1
               = ((result0, True, None), bind_status r [] [], w1)"
proof -
  have m: "managed E name (bind_status r [] []) rr zone"
    using assms(2) by (simp add: managed_def)
  have "lib_Reconcile E name C (bind_status r [] []) w1
      = ((result0, True, None), bind_status r [] [], w1)" for w1
    using assms(3)
    by (simp add: lib_Reconcile_lawful [OF assms(1) m] find_empty_ID [OF assms(1)] lib_remove_def)
  then show ?thesis using remove_lawful [OF assms] by blast
qed

theorem lib_removal_witness:
  "\<exists>w1. lib_Reconcile exExt ''mem'' memClient exDeleted (\<lambda>z. [])
          = ((result0, True, None), bind_status exDeleted [] [], w1)"
proof -
  have m: "managed exExt ''mem'' exDeleted exRR ''example.org.''"
    using exValid_managed by (simp add: managed_def exDeleted_def ToRR_def)
  have g: "wantsGone exDeleted" by (simp add: wantsGone_def exDeleted_def timeIsZero_def)
  show ?thesis using lib_removal [OF memClient_lawful m g] by blast
qed

text \<open>
  The TTL of the service's record is the object's TTL in nanoseconds: the
  multiplication on 64 bits cannot overflow, not even into the sign bit, and different
  TTLs stay different, so a changed TTL is always noticed.
\<close>

lemma ttlDuration_exact:
  "unat (ttlDuration t) = unat t * 1000000000 \<and> unat (ttlDuration t) < 2 ^ 63
   \<and> (ttlDuration t = ttlDuration u \<longleftrightarrow> t = u)"
proof -
  have "unat t < 2 ^ 32" using unsigned_less [of t, where 'a = nat] by simp
  then have "unat (ttlDuration t) < 2 ^ 63" by (simp add: ttlDuration_unat)
  moreover have "ttlDuration t = ttlDuration u \<longleftrightarrow> t = u"
    by (metis mult_right_cancel ttlDuration_unat word_unat_eq_iff zero_neq_numeral)
  ultimately show ?thesis by (simp add: ttlDuration_unat)
qed

text \<open>The two writes with which a record bound under the ID \<open>i\<close> is replaced by itself.\<close>

definition replacement :: "ext \<Rightarrow> rr \<Rightarrow> string \<Rightarrow> string \<Rightarrow> lcall list" where
  "replacement E rr zone i =
     [LDelete zone [FqdnRec E (lib_makeRecord E rr zone i) zone], LAppend zone [lib_makeRecord E rr zone i]]"

lemma wanted_ID: "(wanted E rr zone)\<lparr>l_ID := i\<rparr> = lib_makeRecord E rr zone i"
  by (simp add: wanted_def lib_makeRecord_def Let_def)

lemma txt_replaced:
  assumes "lawfulClient C view" and "managed E name r (RR_TXT h ts) zone" and "\<not> wantsGone r"
    and "typeToString E (h_Rrtype h) = ''TXT''"
    and "Unquote (replaceAll (strJoin ts []) [CHR 0x22, CHR '' '', CHR 0x22] []) \<noteq> strJoin ts []"
    and "stored E view (RR_TXT h ts) zone r w"
  shows "\<exists>r1 w1. lib_Reconcile E name (logClient C) r (w, l)
             = ((result0, True, None), r1, (w1, l @ replacement E (RR_TXT h ts) zone (st_ID (r_Status r))))
           \<and> managed E name r1 (RR_TXT h ts) zone \<and> \<not> wantsGone r1
           \<and> stored E view (RR_TXT h ts) zone r1 w1"
proof -
  let ?rr = "RR_TXT h ts" and ?i = "st_ID (r_Status r)"
  let ?v = "(wanted E ?rr zone)\<lparr>l_ID := ?i\<rparr>"
  have diff: "l_Value (FqdnRec E ?v zone) \<noteq> l_Value (wanted E ?rr zone)"
    using assms(4,5) by (simp add: FqdnRec_def wanted_def Let_def)
  obtain rs w1 where d: "lc_DeleteRecords C zone [FqdnRec E ?v zone] w = ((rs, None), w1)"
    using lawful_delete [OF assms(1)] by blast
  let ?l = "l @ [LDelete zone [FqdnRec E ?v zone]]"
  obtain i w2 where a: "lib_append name (logClient C) zone (lib_makeRecord E ?rr zone ?i) r (w1, ?l)
      = ((result0, True, None), bind_status r name i,
         (w2, ?l @ [LAppend zone [lib_makeRecord E ?rr zone ?i]]))"
    and st: "stored E view ?rr zone (bind_status r name i) w2"
    using append_stores [OF assms(1)] by blast
  have "lib_Reconcile E name (logClient C) r (w, l)
      = lib_append name (logClient C) zone (lib_makeRecord E ?rr zone ?i) r (w1, ?l)"
    using assms(2,3,6) d diff
    by (auto simp: lib_Reconcile_def managed_def wantsGone_def logClient_sel lawful_get [OF assms(1)]
        stored_def lib_ensure_def Let_def wanted_def)
  with a st assms(2,3) show ?thesis
    using wanted_ID [of ?i E ?rr zone] by (auto simp: managed_def replacement_def)
qed

text \<open>
  C36. A TXT value that the comparison's normalisation changes (one with a space or a quote
  at either end) is never up to date, although the service holds it under the ID of the status.
  However often the object is reconciled, each call reports success, deletes the bound record
  and appends the same record again, and leaves the object bound as before: after \<open>n\<close> calls
  there were exactly \<open>n\<close> deletions and \<open>n\<close> creations, for an object that nobody changed.
\<close>

theorem lib_txt_replaced_forever:
  assumes "lawfulClient C view" and "managed E name r (RR_TXT h ts) zone" and "\<not> wantsGone r"
    and "typeToString E (h_Rrtype h) = ''TXT''"
    and "Unquote (replaceAll (strJoin ts []) [CHR 0x22, CHR '' '', CHR 0x22] []) \<noteq> strJoin ts []"
    and "stored E view (RR_TXT h ts) zone r w"
  shows "\<exists>r1 w1 ids.
    ((\<lambda>(r, x). snd (lib_Reconcile E name (logClient C) r x)) ^^ n) (r, (w, l))
      = (r1, (w1, l @ concat (map (replacement E (RR_TXT h ts) zone) ids)))
    \<and> length ids = n \<and> (0 < n \<longrightarrow> hd ids = st_ID (r_Status r))
    \<and> stored E view (RR_TXT h ts) zone r1 w1
    \<and> (\<forall>l'. fst (lib_Reconcile E name (logClient C) r1 (w1, l')) = (result0, True, None))"
  using assms(2,3,6)
proof (induction n arbitrary: r w l)
  case 0
  have "fst (lib_Reconcile E name (logClient C) r (w, l')) = (result0, True, None)" for l'
    using txt_replaced [OF assms(1) 0(1,2) assms(4,5) 0(3), of l'] by auto
  then show ?case using 0 by simp
next
  case (Suc n)
  from txt_replaced [OF assms(1) Suc.prems(1,2) assms(4,5) Suc.prems(3), of l]
  obtain r1 w1 where 1: "lib_Reconcile E name (logClient C) r (w, l)
      = ((result0, True, None), r1, (w1, l @ replacement E (RR_TXT h ts) zone (st_ID (r_Status r))))"
    "managed E name r1 (RR_TXT h ts) zone" "\<not> wantsGone r1" "stored E view (RR_TXT h ts) zone r1 w1" by blast
  from Suc.IH [OF 1(2-4), of "l @ replacement E (RR_TXT h ts) zone (st_ID (r_Status r))"]
  obtain r2 w2 ids where 2: "((\<lambda>(r, x). snd (lib_Reconcile E name (logClient C) r x)) ^^ n)
      (r1, (w1, l @ replacement E (RR_TXT h ts) zone (st_ID (r_Status r))))
      = (r2, (w2, (l @ replacement E (RR_TXT h ts) zone (st_ID (r_Status r))) @ concat (map (replacement E (RR_TXT h ts) zone) ids)))"
    "length ids = n" "stored E view (RR_TXT h ts) zone r2 w2"
    "\<forall>l'. fst (lib_Reconcile E name (logClient C) r2 (w2, l')) = (result0, True, None)" by blast
  have "((\<lambda>(r, x). snd (lib_Reconcile E name (logClient C) r x)) ^^ Suc n) (r, (w, l))
      = (r2, (w2, l @ concat (map (replacement E (RR_TXT h ts) zone) (st_ID (r_Status r) # ids))))"
    using 1(1) 2(1) by (simp add: funpow_Suc_right del: funpow.simps)
  then show ?case using 2(2-4) by (intro exI [of _ r2] exI [of _ w2] exI [of _ "st_ID (r_Status r) # ids"]) simp
qed

theorem lib_txt_replaced_forever_witness:
  "\<exists>r1 w1 ids.
     ((\<lambda>(r, x). snd (lib_Reconcile exExt ''mem'' (logClient memClient) r x)) ^^ 100)
       (exTXT, ((\<lambda>z. [(wanted exExt exTXTRR ''example.org.'')\<lparr>l_ID := ''x''\<rparr>]), []))
     = (r1, (w1, concat (map (replacement exExt exTXTRR ''example.org.'') ids))) \<and> length ids = 100"
proof -
  let ?h = "mkHeader ''www.example.org.'' TypeTXT 1 60"
  let ?w = "\<lambda>z::string. [(wanted exExt exTXTRR ''example.org.'')\<lparr>l_ID := ''x''\<rparr>]"
  have m: "managed exExt ''mem'' exTXT (RR_TXT ?h ['' spf'']) ''example.org.''"
    by (simp add: managed_def exTXT_def exRecord_def ToRR_def specToRR_def emptyStatus_def
        lib_zone_def trimSuffix_def hasSuffix_def exPsl_def exDomain_def exFqdn_def go_eval)
  have g: "\<not> wantsGone exTXT"
    by (simp add: wantsGone_def exTXT_def exRecord_def emptyMeta_def timeIsZero_def)
  have t: "typeToString exExt (h_Rrtype ?h) = ''TXT''"
    by (simp add: exTypeToString_def)
  have n: "Unquote (replaceAll (strJoin ['' spf''] []) [CHR 0x22, CHR '' '', CHR 0x22] [])
      \<noteq> strJoin ['' spf''] []"
    by (simp add: Unquote_def trimSpace_def utf8Spaces_def replaceAll.simps char_eval
        trimLeftByte_def trimRightByte_def hasPrefix_def Let_def)
  have s: "stored exExt memView (RR_TXT ?h ['' spf'']) ''example.org.'' exTXT ?w"
    by (simp add: stored_def memView_def exTXT_def exTXTRR_def)
  show ?thesis
    using lib_txt_replaced_forever [OF memClient_lawful m g t n s, of 100 "[]"]
    unfolding exTXTRR_def by (elim exE conjE) (intro exI conjI, simp_all)
qed

text \<open>
  C37. The bound record is found by comparing IDs, also when the status holds none. If the
  service lists a record without an ID, removing an object that was never bound deletes
  that record, which the object does not own.
\<close>

theorem lib_removes_foreign_record:
  assumes "managed E name r rr zone" and "wantsGone r" and "st_ID (r_Status r) = []"
    and "lc_GetRecords C zone w = ((recs, None), w0)"
    and "find (\<lambda>v. l_ID v = []) recs = Some v"
  shows "\<exists>out r1 w1. lib_Reconcile E name (logClient C) r (w, l)
                     = (out, r1, (w1, l @ [LDelete zone [v]]))"
proof -
  obtain x w1 where "lc_DeleteRecords C zone [v] w0 = (x, w1)"
    by (metis surj_pair)
  then show ?thesis
    using assms
    by (auto simp: lib_Reconcile_def managed_def wantsGone_def logClient_sel lib_remove_def Let_def
        split: prod.splits option.splits)
qed

theorem lib_removes_foreign_record_witness:
  "\<exists>out r1 w1. lib_Reconcile exExt ''mem''
       (logClient (memClient\<lparr>lc_GetRecords := (\<lambda>z w. ((w z, None), w))\<rparr>)) exDeleted
       ((\<lambda>z. [wanted exExt exTXTRR ''example.org.'']), [])
     = (out, r1, (w1, [LDelete ''example.org.'' [wanted exExt exTXTRR ''example.org.'']]))"
proof -
  let ?C = "memClient\<lparr>lc_GetRecords := (\<lambda>z w. ((w z, None), w))\<rparr>"
  let ?w = "\<lambda>z::string. [wanted exExt exTXTRR ''example.org.'']"
  have m: "managed exExt ''mem'' exDeleted exRR ''example.org.''"
    using exValid_managed by (simp add: managed_def exDeleted_def ToRR_def)
  have g: "wantsGone exDeleted" by (simp add: wantsGone_def exDeleted_def timeIsZero_def)
  have i: "st_ID (r_Status exDeleted) = []"
    by (simp add: exDeleted_def)
  show ?thesis
    using lib_removes_foreign_record [OF m g i, of ?C ?w "?w ''example.org.''" ?w _ "[]"] by simp
qed

end
