(* ===== verification/Record_Controller.thy ===== *)
theory Record_Controller
  imports K8s_Client Libdns_Sync
begin

text \<open>
  Component \<^verbatim>\<open>controllers/dnsrecord_controller.go\<close>: the reconciler of \<^verbatim>\<open>DNSRecord\<close>
  objects. \<open>dnsReconcile\<close> is the whole handler between taking and releasing the lock of
  the object (the locks are modelled in their own theory); its three long branches are
  definitions of their own. The provider, the client, the event recorder and the DNS
  exchange are functions over the world.
\<close>

section \<open>Definitions\<close>

definition RecordFinalizer :: string where
  "RecordFinalizer = ''dns.linka.cloud/finalizer''"

definition hasFinalizer :: "DNSRecord \<Rightarrow> bool" where
  "hasFinalizer r = list_ex (\<lambda>v. v = RecordFinalizer) (m_Finalizers (r_Meta r))"

text \<open>
  \<^verbatim>\<open>removeFinalizer\<close>: at the first index \<open>i\<close> of the finalizer, a one-element list becomes
  nil, any other becomes \<^verbatim>\<open>append(Finalizers[i:], Finalizers[i+1:]...)\<close>.
\<close>

fun firstIndex :: "string \<Rightarrow> string list \<Rightarrow> nat option" where
  "firstIndex x [] = None"
| "firstIndex x (y # ys) = (if y = x then Some 0 else map_option Suc (firstIndex x ys))"

definition removeFinalizer :: "DNSRecord \<Rightarrow> bool \<times> DNSRecord" where
  "removeFinalizer r =
     (let fs = m_Finalizers (r_Meta r)
      in case firstIndex RecordFinalizer fs of
           None \<Rightarrow> (False, r)
         | Some i \<Rightarrow>
             (True, r\<lparr>r_Meta := (r_Meta r)\<lparr>m_Finalizers :=
                if length fs = 1 then [] else drop i fs @ drop (i + 1) fs\<rparr>\<rparr>))"

definition recordState :: "bool \<Rightarrow> string" where
  "recordState ok = (if ok then ''active'' else ''inactive'')"

text \<open>The message and the reply of \<^verbatim>\<open>dns.Client.ExchangeContext\<close>.\<close>

record DnsQuery =
  q_Id :: u16
  q_RecursionDesired :: bool
  q_Question :: "(string \<times> u16 \<times> u16) list"

record DnsMsg =
  msg_Truncated :: bool
  msg_Answer :: "rr list"

record 'w DNSRecordReconciler =
  rc_Client :: "'w kclient"
  rc_recorder :: "(DNSRecord, 'w) EventRecorder"
  rc_Provider :: "DNSRecord \<Rightarrow> 'w \<Rightarrow> (Result \<times> bool \<times> go_error option) \<times> DNSRecord \<times> 'w"
  rc_DNSVerificationServer :: string
  rc_dnsId :: "'w \<Rightarrow> u16 \<times> 'w"
  rc_exchange :: "string \<Rightarrow> DnsQuery \<Rightarrow> string \<Rightarrow> 'w \<Rightarrow> (go_error + DnsMsg) \<times> 'w"

text \<open>An exchange is repeated on the next network after an error and after a truncated reply.\<close>

fun tryNext :: "go_error + DnsMsg \<Rightarrow> bool" where
  "tryNext (Inl _) = True"
| "tryNext (Inr m) = msg_Truncated m"

fun exchangeLoop ::
  "(string \<Rightarrow> DnsQuery \<Rightarrow> string \<Rightarrow> 'w \<Rightarrow> (go_error + DnsMsg) \<times> 'w) \<Rightarrow> DnsQuery \<Rightarrow> string
     \<Rightarrow> string \<Rightarrow> string list \<Rightarrow> 'w \<Rightarrow> (go_error + DnsMsg) \<times> 'w" where
  "exchangeLoop X q srv net [] w = X net q srv w"
| "exchangeLoop X q srv net (n # ns) w =
     (case X net q srv w of (res, w1) \<Rightarrow>
        if tryNext res then exchangeLoop X q srv n ns w1 else (res, w1))"

definition lookup :: "ext \<Rightarrow> 'w DNSRecordReconciler \<Rightarrow> rr \<Rightarrow> 'w \<Rightarrow> (go_error + bool) \<times> 'w" where
  "lookup E R rr w =
     (case rc_dnsId R w of (i, w1) \<Rightarrow>
        let q = \<lparr>q_Id = i, q_RecursionDesired = True,
                 q_Question = [(h_Name (rrHeader rr), h_Rrtype (rrHeader rr), h_Class (rrHeader rr))]\<rparr>
        in case exchangeLoop (rc_exchange R) q (rc_DNSVerificationServer R) ''udp'' [''tcp''] w1 of
             (Inl e, w2) \<Rightarrow> (Inl e, w2)
           | (Inr res, w2) \<Rightarrow> (Inr (list_ex (\<lambda>v. isDuplicate E v rr) (msg_Answer res)), w2))"

text \<open>What a handler returns; \<open>Panic\<close> is a nil dereference.\<close>

datatype outcome = Done Result "go_error option" | Panic

abbreviation finished :: outcome where
  "finished \<equiv> Done result0 None"

definition doneOr :: "go_error option \<times> 'w \<Rightarrow> outcome \<times> 'w" where
  "doneOr x = (Done result0 (fst x), snd x)"

definition sameBinding :: "DNSRecord \<Rightarrow> DNSRecord \<Rightarrow> bool" where
  "sameBinding r s \<longleftrightarrow>
     st_Provider (r_Status r) = st_Provider (r_Status s) \<and> st_ID (r_Status r) = st_ID (r_Status s)"

text \<open>The branch for an object whose deletion was requested.\<close>

definition reconcileDeleted ::
  "ext \<Rightarrow> 'w DNSRecordReconciler \<Rightarrow> NamespacedName \<Rightarrow> DNSRecord \<Rightarrow> 'w \<Rightarrow> outcome \<times> 'w" where
  "reconcileDeleted E R req r w =
     (case rc_Provider R r w of
        ((res, False, err), _, w1) \<Rightarrow> (Done res err, w1)
      | ((res, True, err), r1, w1) \<Rightarrow>
          (if \<not> sameBinding r1 r then doneOr (k_StatusUpdate (rc_Client R) r1 w1)
           else
             (let w2 = rec_Event E (rc_recorder R) r1 ''Deleted''
                         (''Deleted DNSRecord '' @ namespacedNameString req) w1
              in case removeFinalizer r1 of
                   (False, _) \<Rightarrow> (finished, w2)
                 | (True, r2) \<Rightarrow> doneOr (k_Update (rc_Client R) r2 w2))))"

text \<open>The branch that sets the finalizer.\<close>

definition setFinalizer :: "DNSRecord \<Rightarrow> DNSRecord" where
  "setFinalizer r =
     r\<lparr>r_Meta := (r_Meta r)\<lparr>m_Finalizers := m_Finalizers (r_Meta r) @ [RecordFinalizer]\<rparr>\<rparr>"

text \<open>The end of the handler, once the status shows the record: ask the DNS and compare.\<close>

definition verifyRecord :: "ext \<Rightarrow> 'w DNSRecordReconciler \<Rightarrow> rr \<Rightarrow> DNSRecord \<Rightarrow> 'w \<Rightarrow> outcome \<times> 'w" where
  "verifyRecord E R rr r w =
     (case lookup E R rr w of
        (Inl e, w1) \<Rightarrow> (Done result0 (Some e), w1)
      | (Inr ok, w1) \<Rightarrow>
          (if ptr_ToBoolD (st_Active (r_Status r)) False \<noteq> ok then
             (let r1 = r\<lparr>r_Status := (r_Status r)\<lparr>st_Active := ptr_Bool ok\<rparr>\<rparr>;
                  w2 = (if \<not> ok then rec_Warn E (rc_recorder R) r1 ''Warning''
                                       (''record '' @ recordState ok) w1
                        else w1)
              in doneOr (k_StatusUpdate (rc_Client R) r1 w2))
           else if ptr_ToBoolD (sp_Active (r_Spec r)) True \<noteq> ok then
             (case sp_Active (r_Spec r) of
                None \<Rightarrow> (Panic, w1)
              | Some _ \<Rightarrow> (Done (result0\<lparr>res_RequeueAfter := 1\<rparr>) None, w1))
           else (finished, rec_Event E (rc_recorder R) r ''Success'' (''record '' @ recordState ok) w1)))"

text \<open>The branch for an object that stays.\<close>

definition reconcileActive :: "ext \<Rightarrow> 'w DNSRecordReconciler \<Rightarrow> rr \<Rightarrow> DNSRecord \<Rightarrow> 'w \<Rightarrow> outcome \<times> 'w" where
  "reconcileActive E R rr r w =
     (case rc_Provider R r w of
        ((res, False, err), _, w1) \<Rightarrow> (Done res err, w1)
      | ((res, True, err), r1, w1) \<Rightarrow>
          (if \<not> sameBinding r1 r \<or> st_Record (r_Status r1) \<noteq> rrString E rr
           then doneOr (k_StatusUpdate (rc_Client R)
                  (r1\<lparr>r_Status := (r_Status r1)\<lparr>st_Record := rrString E rr\<rparr>\<rparr>) w1)
           else verifyRecord E R rr r1 w1))"

definition dnsReconcile :: "ext \<Rightarrow> 'w DNSRecordReconciler \<Rightarrow> NamespacedName \<Rightarrow> 'w \<Rightarrow> outcome \<times> 'w" where
  "dnsReconcile E R req w =
     (case k_Get (rc_Client R) req w of
        (Inl e, w1) \<Rightarrow> (Done result0 (if isNotFound e then None else Some e), w1)
      | (Inr r0, w1) \<Rightarrow>
          (let r = Default E r0
           in case ToRR E r of
                Inl e \<Rightarrow> (Done result0 (Some e),
                           rec_Warn E (rc_recorder R) r ''Error'' (error_text e) w1)
              | Inr rr \<Rightarrow>
                  (if \<not> timeIsZero (m_DeletionTimestamp (r_Meta r)) then reconcileDeleted E R req r w1
                   else if \<not> hasFinalizer r then doneOr (k_Update (rc_Client R) (setFinalizer r) w1)
                   else reconcileActive E R rr r w1)))"

text \<open>The provider values of the registry, given the clients of the external services.\<close>

definition providerOf :: "ext \<Rightarrow> (clientConfig \<Rightarrow> 'w LClient) \<Rightarrow> providerVal \<Rightarrow> 'w provider" where
  "providerOf E clients pv =
     (case pv of
        NoopProvider \<Rightarrow> noop_Reconcile
      | LibdnsProvider name cfg sync \<Rightarrow> lib_Reconcile E name (clients cfg))"

text \<open>
  Every provider that the registry can create keeps the contract: the two
  implementations do.
\<close>

interpretation registered: provider_contract "providerOf E clients pv" for E clients pv
proof (cases pv)
  case NoopProvider
  then have "providerOf E clients pv = noop_Reconcile"
    by (simp add: providerOf_def fun_eq_iff)
  then show "provider_contract (providerOf E clients pv)"
    using noop.provider_contract_axioms by simp
next
  case (LibdnsProvider name cfg sync)
  then have "providerOf E clients pv = lib_Reconcile E name (clients cfg)"
    by (simp add: providerOf_def fun_eq_iff)
  then show "provider_contract (providerOf E clients pv)"
    using libdns.provider_contract_axioms by simp
qed

section \<open>Observed writes\<close>

text \<open>The reconciler over a client that keeps the list of its writes.\<close>

definition observed :: "'w DNSRecordReconciler \<Rightarrow> ('w \<times> kwrite list) DNSRecordReconciler" where
  "observed R =
     \<lparr>rc_Client = logK (rc_Client R), rc_recorder = liftER (rc_recorder R),
      rc_Provider = (\<lambda>r (w, l). case rc_Provider R r w of (x, r', w1) \<Rightarrow> (x, r', (w1, l))),
      rc_DNSVerificationServer = rc_DNSVerificationServer R,
      rc_dnsId = (\<lambda>(w, l). case rc_dnsId R w of (i, w1) \<Rightarrow> (i, (w1, l))),
      rc_exchange = (\<lambda>n q s (w, l). case rc_exchange R n q s w of (x, w1) \<Rightarrow> (x, (w1, l)))\<rparr>"

text \<open>The second record is the first one with another status.\<close>

definition onlyStatus :: "DNSRecord \<Rightarrow> DNSRecord \<Rightarrow> bool" where
  "onlyStatus r u \<longleftrightarrow> u = r\<lparr>r_Status := r_Status u\<rparr>"

text \<open>
  The writes one reconciliation may make when it fetched \<open>r0\<close> and the world was \<open>w0\<close>
  after that: nothing is created or deleted; a status update carries the metadata and the
  defaulted spec unchanged, and happens only under the finalizer or during deletion; an
  update either adds the finalizer to an object that stays, or, after the provider
  reported success and had no binding left to change, applies \<^verbatim>\<open>removeFinalizer\<close>.
\<close>

definition dnsWrite :: "ext \<Rightarrow> 'w DNSRecordReconciler \<Rightarrow> DNSRecord \<Rightarrow> 'w \<Rightarrow> kwrite \<Rightarrow> bool" where
  "dnsWrite E R r0 w0 c \<longleftrightarrow>
     (let r = Default E r0
      in case c of
           KCreate _ \<Rightarrow> False
         | KDelete _ \<Rightarrow> False
         | KStatus u \<Rightarrow> (deletionRequested r \<or> hasFinalizer r) \<and> onlyStatus r u
         | KUpdate u \<Rightarrow>
             if deletionRequested r
             then (\<exists>res w1. rc_Provider R r w0 = ((res, True, None), r, w1)) \<and> removeFinalizer r = (True, u)
             else \<not> hasFinalizer r \<and> u = setFinalizer r)"

section \<open>Lemmas\<close>

lemma observed_sel [simp]:
  "rc_Client (observed R) = logK (rc_Client R)" "rc_recorder (observed R) = liftER (rc_recorder R)"
  "rc_Provider (observed R) r (w, l) = (case rc_Provider R r w of (x, r', w1) \<Rightarrow> (x, r', (w1, l)))"
  "rc_DNSVerificationServer (observed R) = rc_DNSVerificationServer R"
  "rc_dnsId (observed R) (w, l) = (case rc_dnsId R w of (i, w1) \<Rightarrow> (i, (w1, l)))"
  "rc_exchange (observed R) n q s (w, l) = (case rc_exchange R n q s w of (x, w1) \<Rightarrow> (x, (w1, l)))"
  by (simp_all add: observed_def)

lemma exchangeLoop_observed:
  "exchangeLoop (rc_exchange (observed R)) q srv net nets (w, l) =
     (case exchangeLoop (rc_exchange R) q srv net nets w of (x, w1) \<Rightarrow> (x, (w1, l)))"
  by (induction nets arbitrary: net w) (simp_all split: prod.splits)

lemma lookup_observed:
  "lookup E (observed R) rr (w, l) = (case lookup E R rr w of (x, w1) \<Rightarrow> (x, (w1, l)))"
  by (simp add: lookup_def Let_def exchangeLoop_observed split: prod.splits sum.splits)

lemma doneOr_eq [simp]: "doneOr (x, w) = (Done result0 x, w)"
  by (simp add: doneOr_def)

lemma onlyStatus_update [simp]: "onlyStatus r (r\<lparr>r_Status := s\<rparr>)"
  by (simp add: onlyStatus_def)

lemma onlyStatus_updateI [simp]: "onlyStatus r u \<Longrightarrow> onlyStatus r (u\<lparr>r_Status := s\<rparr>)"
  by (cases r; cases u) (simp add: onlyStatus_def)

lemma onlyStatus_trans: "onlyStatus r u \<Longrightarrow> onlyStatus u v \<Longrightarrow> onlyStatus r v"
  by (cases r; cases u; cases v) (simp add: onlyStatus_def)

lemma onlyStatus_sel:
  "onlyStatus r u \<Longrightarrow> r_Meta u = r_Meta r \<and> r_Spec u = r_Spec r \<and> r_TypeMeta u = r_TypeMeta r"
  by (cases r; cases u) (simp add: onlyStatus_def)

lemma verifyRecord_log:
  assumes "verifyRecord E (observed R) rr r (w, l) = (out, (w', l'))"
  shows "\<exists>cs. l' = l @ cs \<and> length cs \<le> 1 \<and> (\<forall>c \<in> set cs. \<exists>u. c = KStatus u \<and> onlyStatus r u)"
  using assms
  by (auto simp: verifyRecord_def lookup_observed Let_def split: prod.splits sum.splits if_splits option.splits)

lemma verifyRecord_no_panic:
  "verifyRecord E R rr r w = (out, w') \<Longrightarrow> sp_Active (r_Spec r) \<noteq> None \<Longrightarrow> out \<noteq> Panic"
  by (auto simp: verifyRecord_def doneOr_def Let_def split: prod.splits sum.splits if_splits)

lemma defaultSpec_Active_set: "sp_Active (defaultSpec E sp) \<noteq> None"
  by (simp add: defaultSpec_Active)

context provider_contract
begin

lemma status_only: "reconcile r w = (out, r', w') \<Longrightarrow> onlyStatus r r'"
  by (drule binding_only, cases r; cases r') (simp add: onlyStatus_def sameButBinding_def)

lemma same_binding_same:
  assumes "reconcile r w = (out, r', w')" and "sameBinding r' r"
  shows "r' = r"
  using binding_only [OF assms(1)] assms(2)
  by (cases r; cases r'; cases "r_Status r"; cases "r_Status r'")
    (simp add: sameBinding_def sameButBinding_def)

lemma deleted_log:
  assumes "rc_Provider R = reconcile" and "deletionRequested (Default E r0)"
    and "reconcileDeleted E (observed R) req (Default E r0) (w, l) = (out, (w', l'))"
  shows "\<exists>cs. l' = l @ cs \<and> length cs \<le> 1 \<and> (\<forall>c \<in> set cs. dnsWrite E R r0 w c) \<and> out \<noteq> Panic"
proof -
  obtain res ok err r1 w1 where p: "reconcile (Default E r0) w = ((res, ok, err), r1, w1)"
    by (metis prod_cases3)
  have s: "onlyStatus (Default E r0) r1" by (rule status_only [OF p])
  show ?thesis
  proof (cases "ok \<and> sameBinding r1 (Default E r0)")
    case True
    then have "r1 = Default E r0" "err = None" and "rc_Provider R (Default E r0) w = ((res, True, None), Default E r0, w1)"
      using same_binding_same [OF p] ok_no_error p assms(1) by auto
    then show ?thesis using assms True
      by (auto simp: reconcileDeleted_def dnsWrite_def Let_def split: prod.splits bool.splits)
  next
    case False
    then show ?thesis using assms p s
      by (auto simp: reconcileDeleted_def dnsWrite_def Let_def split: prod.splits bool.splits)
  qed
qed

lemma active_log:
  assumes "rc_Provider R = reconcile" and "hasFinalizer (Default E r0)"
    and "reconcileActive E (observed R) rr (Default E r0) (w, l) = (out, (w', l'))"
  shows "\<exists>cs. l' = l @ cs \<and> length cs \<le> 1 \<and> (\<forall>c \<in> set cs. dnsWrite E R r0 w c) \<and> out \<noteq> Panic"
proof -
  obtain res ok err r1 w1 where p: "reconcile (Default E r0) w = ((res, ok, err), r1, w1)"
    by (metis prod_cases3)
  have s: "onlyStatus (Default E r0) r1" by (rule status_only [OF p])
  then have a: "sp_Active (r_Spec r1) \<noteq> None"
    using onlyStatus_sel by (simp add: defaultSpec_Active_set)
  show ?thesis
  proof (cases "ok \<and> sameBinding r1 (Default E r0) \<and> st_Record (r_Status r1) = rrString E rr")
    case True
    then have v: "verifyRecord E (observed R) rr r1 (w1, l) = (out, (w', l'))"
      using assms(1,3) p by (simp add: reconcileActive_def)
    show ?thesis
      using verifyRecord_log [OF v] verifyRecord_no_panic [OF v a] assms(2) onlyStatus_trans [OF s]
      by (fastforce simp: dnsWrite_def)
  next
    case False
    then show ?thesis using assms p s
      by (cases ok) (auto simp: reconcileActive_def dnsWrite_def split: prod.splits)
  qed
qed

lemma reconcile_log:
  assumes "rc_Provider R = reconcile" and "k_Get (rc_Client R) req w = (Inr r0, w0)"
    and "dnsReconcile E (observed R) req (w, l) = (out, (w', l'))"
  shows "\<exists>cs. l' = l @ cs \<and> length cs \<le> 1 \<and> (\<forall>c \<in> set cs. dnsWrite E R r0 w0 c) \<and> out \<noteq> Panic"
proof -
  consider (bad) "l' = l" "out \<noteq> Panic"
    | (del) "deletionRequested (Default E r0)"
        "reconcileDeleted E (observed R) req (Default E r0) (w0, l) = (out, (w', l'))"
    | (fin) "\<not> deletionRequested (Default E r0)" "\<not> hasFinalizer (Default E r0)"
        "l' = l @ [KUpdate (setFinalizer (Default E r0))]" "out \<noteq> Panic"
    | (act) rr where "hasFinalizer (Default E r0)"
        "reconcileActive E (observed R) rr (Default E r0) (w0, l) = (out, (w', l'))"
    using assms(2,3)
    by (auto simp: dnsReconcile_def deletionRequested_def Let_def split: sum.splits if_splits prod.splits)
  then show ?thesis
    by cases (use deleted_log [OF assms(1)] active_log [OF assms(1)] in \<open>auto simp: dnsWrite_def\<close>)
qed

end

lemma firstIndex_split:
  "x \<notin> set pre \<Longrightarrow> firstIndex x (pre @ x # post) = Some (length pre)"
  by (induction pre) auto

lemma firstIndex_None: "firstIndex x xs = None \<longleftrightarrow> x \<notin> set xs"
  by (induction xs) auto

lemma hasFinalizer_iff: "hasFinalizer r \<longleftrightarrow> RecordFinalizer \<in> set (m_Finalizers (r_Meta r))"
  by (auto simp: hasFinalizer_def list_ex_iff)

lemma removeFinalizer_split:
  assumes "m_Finalizers (r_Meta r) = pre @ RecordFinalizer # post" and "RecordFinalizer \<notin> set pre"
  shows "removeFinalizer r = (True, r\<lparr>r_Meta := (r_Meta r)\<lparr>m_Finalizers :=
           if pre = [] \<and> post = [] then [] else RecordFinalizer # post @ post\<rparr>\<rparr>)"
  using assms by (auto simp: removeFinalizer_def firstIndex_split Let_def)

section \<open>Example objects\<close>

text \<open>A reconciler whose DNS server always answers with one record.\<close>

definition exRc ::
  "(DNSRecord \<Rightarrow> DNSRecord list \<times> 'z \<Rightarrow> (Result \<times> bool \<times> go_error option) \<times> DNSRecord \<times> (DNSRecord list \<times> 'z))
     \<Rightarrow> rr \<Rightarrow> (DNSRecord list \<times> 'z) DNSRecordReconciler" where
  "exRc P rr =
     \<lparr>rc_Client = memK,
      rc_recorder = \<lparr>er_Event = (\<lambda>_ _ _ _ w. w), er_Eventf = (\<lambda>_ _ _ _ _ w. w)\<rparr>,
      rc_Provider = P, rc_DNSVerificationServer = ''127.0.0.1:53'',
      rc_dnsId = (\<lambda>w. (7, w)),
      rc_exchange = (\<lambda>_ _ _ w. (Inr \<lparr>msg_Truncated = False, msg_Answer = [rr]\<rparr>, w))\<rparr>"

lemma exRc_sel [simp]:
  "rc_Client (exRc P rr) = memK" "rc_Provider (exRc P rr) = P"
  "rc_dnsId (exRc P rr) = (\<lambda>w. (7, w))"
  "rc_exchange (exRc P rr) = (\<lambda>_ _ _ w. (Inr \<lparr>msg_Truncated = False, msg_Answer = [rr]\<rparr>, w))"
  "rec_Event E (rc_recorder (exRc P rr)) ob a b w = w"
  "rec_Warn E (rc_recorder (exRc P rr)) ob a b w = w"
  by (simp_all add: exRc_def rec_Event_def rec_Warn_def)

text \<open>A libdns client that works on the second part of the world.\<close>

definition sndClient :: "'z LClient \<Rightarrow> ('a \<times> 'z) LClient" where
  "sndClient C =
     \<lparr>lc_GetRecords = (\<lambda>z (a, w). case lc_GetRecords C z w of (x, w1) \<Rightarrow> (x, (a, w1))),
      lc_AppendRecords = (\<lambda>z rs (a, w). case lc_AppendRecords C z rs w of (x, w1) \<Rightarrow> (x, (a, w1))),
      lc_DeleteRecords = (\<lambda>z rs (a, w). case lc_DeleteRecords C z rs w of (x, w1) \<Rightarrow> (x, (a, w1)))\<rparr>"

type_synonym exWorld = "DNSRecord list \<times> (string \<Rightarrow> LRecord list)"

definition exProvider :: "exWorld provider" where
  "exProvider = providerOf exExt (\<lambda>_. sndClient memClient) (LibdnsProvider ''mem'' (HetznerClient ''t'') True)"

lemma sndClient_lawful:
  assumes "lawfulClient C view"
  shows "lawfulClient (sndClient C) (\<lambda>w. view (snd w))"
proof -
  have app: "\<exists>i w'. lc_AppendRecords (sndClient C) z [v] w = (([v\<lparr>l_ID := i\<rparr>], None), w')
      \<and> i \<noteq> [] \<and> i \<notin> l_ID ` set (view (snd w) z) \<and> view (snd w') z = view (snd w) z @ [v\<lparr>l_ID := i\<rparr>]"
    for z v and w :: "'c \<times> 'a"
  proof (cases w)
    case (Pair x y)
    obtain i y' where "lc_AppendRecords C z [v] y = (([v\<lparr>l_ID := i\<rparr>], None), y')" "i \<noteq> []"
      "i \<notin> l_ID ` set (view y z)" "view y' z = view y z @ [v\<lparr>l_ID := i\<rparr>]"
      by (rule lawful_append [OF assms])
    with Pair show ?thesis
      by (intro exI [of _ i] exI [of _ "(x, y')"]) (simp add: sndClient_def)
  qed
  have del: "\<exists>rs w'. lc_DeleteRecords (sndClient C) z [v] w = ((rs, None), w')
      \<and> view (snd w') z = filter (\<lambda>u. l_ID u \<noteq> l_ID v) (view (snd w) z)" for z v and w :: "'c \<times> 'a"
  proof (cases w)
    case (Pair x y)
    obtain rs y' where "lc_DeleteRecords C z [v] y = ((rs, None), y')"
      "view y' z = filter (\<lambda>u. l_ID u \<noteq> l_ID v) (view y z)"
      by (rule lawful_delete [OF assms])
    with Pair show ?thesis
      by (intro exI [of _ rs] exI [of _ "(x, y')"]) (simp add: sndClient_def)
  qed
  have "lc_GetRecords (sndClient C) z w = ((view (snd w) z, None), w)" for z and w :: "'c \<times> 'a"
    by (cases w) (simp add: sndClient_def lawful_get [OF assms])
  then show ?thesis
    unfolding lawfulClient_def using app del lawful_IDs [OF assms] by blast
qed

definition exKey :: NamespacedName where
  "exKey = \<lparr>nn_Namespace = ''default'', nn_Name = ''www''\<rparr>"

lemma exValid_key [simp]: "keyOf exValid = exKey"
  by (simp add: exKey_def keyOf_def exValid_def exRecord_def emptyMeta_def)

section \<open>Properties\<close>

text \<open>
  C8. Whatever the API server, the DNS and the external service do, one reconciliation with
  any provider of the registry makes at most one write to the API server and never
  dereferences a nil pointer. It creates and deletes no object; a status update leaves
  metadata and spec as fetched and defaulted; the finalizer is taken off only when the
  provider has just reported success on the deleted object with nothing left to unbind.
\<close>

theorem dns_writes:
  assumes "rc_Provider R = providerOf E clients pv"
    and "k_Get (rc_Client R) req w = (Inr r0, w0)"
    and "dnsReconcile E (observed R) req (w, l) = (out, (w', l'))"
  shows "\<exists>cs. l' = l @ cs \<and> length cs \<le> 1 \<and> (\<forall>c \<in> set cs. dnsWrite E R r0 w0 c) \<and> out \<noteq> Panic"
  by (rule registered.reconcile_log [OF assms])

theorem dns_writes_witness:
  "\<exists>out w' cs. dnsReconcile exExt (observed (exRc exProvider exRR)) exKey
      (([exValid], (\<lambda>z. [])), []) = (out, (w', cs)) \<and> length cs \<le> 1 \<and> out \<noteq> Panic"
proof -
  let ?R = "exRc exProvider exRR" and ?w = "([exValid], (\<lambda>z. []))"
  have g: "k_Get (rc_Client ?R) exKey ?w = (Inr exValid, ?w)"
    by (simp add: memK_def memGet_def)
  obtain out w' l' where d: "dnsReconcile exExt (observed ?R) exKey (?w, []) = (out, (w', l'))"
    by (metis surj_pair)
  have "rc_Provider ?R = providerOf exExt (\<lambda>_. sndClient memClient) (LibdnsProvider ''mem'' (HetznerClient ''t'') True)"
    by (simp add: exProvider_def)
  from dns_writes [OF this g d] d show ?thesis by auto
qed

text \<open>
  What \<^verbatim>\<open>removeFinalizer\<close> does to a list of finalizers. If ours is the only one, the
  list becomes empty, as intended. Otherwise ours stays, the finalizers of other owners
  before it are dropped, and those after it are duplicated; without it the object is left
  alone.
\<close>

lemma removeFinalizer_result:
  "(m_Finalizers (r_Meta r) = pre @ RecordFinalizer # post \<and> RecordFinalizer \<notin> set pre \<longrightarrow>
      removeFinalizer r = (True, r\<lparr>r_Meta := (r_Meta r)\<lparr>m_Finalizers :=
        if pre = [] \<and> post = [] then [] else RecordFinalizer # post @ post\<rparr>\<rparr>))
   \<and> (\<not> hasFinalizer r \<longrightarrow> removeFinalizer r = (False, r))"
  using removeFinalizer_split [of r pre post]
  by (auto simp: hasFinalizer_iff removeFinalizer_def firstIndex_None [THEN iffD2] Let_def)

end
