(* ===== verification/Record_Lifecycle.thy ===== *)
theory Record_Lifecycle
  imports Record_Controller
begin

text \<open>
  The DNSRecord reconciler together with the libdns provider, an API server and a DNS
  service that behave as documented: for a stored record that is wanted, the repeated handler
  reaches a healthy state and stays there, under the conditions stated below; a deleted record leaves the service before its object
  leaves the API server, and two kinds of objects are never released: those with the finalizer
  of another owner behind ours, and those that are admitted but do not convert.
\<close>

section \<open>Predicates\<close>

text \<open>Events, message IDs and DNS exchanges do not change what \<open>obs\<close> shows of the world.\<close>

definition quiet :: "'w DNSRecordReconciler \<Rightarrow> ('w \<Rightarrow> 'a) \<Rightarrow> bool" where
  "quiet R obs \<longleftrightarrow>
     (\<forall>ob t r m w. obs (er_Event (rc_recorder R) ob t r m w) = obs w)
     \<and> (\<forall>w. obs (snd (rc_dnsId R w)) = obs w)
     \<and> (\<forall>n q s w. obs (snd (rc_exchange R n q s w)) = obs w)"

text \<open>The API server does not change the DNS service, and the service not the API server.\<close>

definition apiKeeps :: "'w kclient \<Rightarrow> ('w \<Rightarrow> 'a) \<Rightarrow> bool" where
  "apiKeeps K obs \<longleftrightarrow>
     (\<forall>r w. obs (snd (k_Update K r w)) = obs w) \<and> (\<forall>r w. obs (snd (k_StatusUpdate K r w)) = obs w)"

definition clientKeeps :: "'w LClient \<Rightarrow> ('w \<Rightarrow> 'a) \<Rightarrow> bool" where
  "clientKeeps C obs \<longleftrightarrow>
     (\<forall>z w. obs (snd (lc_GetRecords C z w)) = obs w)
     \<and> (\<forall>z rs w. obs (snd (lc_AppendRecords C z rs w)) = obs w)
     \<and> (\<forall>z rs w. obs (snd (lc_DeleteRecords C z rs w)) = obs w)"

text \<open>The reconciler with a libdns provider, between a lawful server and a lawful service.\<close>

definition wired ::
  "ext \<Rightarrow> 'w DNSRecordReconciler \<Rightarrow> string \<Rightarrow> 'w LClient
     \<Rightarrow> ('w \<Rightarrow> NamespacedName \<Rightarrow> DNSRecord option) \<Rightarrow> ('w \<Rightarrow> string \<Rightarrow> LRecord list) \<Rightarrow> bool" where
  "wired E R name C get view \<longleftrightarrow>
     rc_Provider R = lib_Reconcile E name C
     \<and> lawfulServer (rc_Client R) get \<and> lawfulClient C view
     \<and> quiet R get \<and> quiet R view \<and> apiKeeps (rc_Client R) view \<and> clientKeeps C get"

text \<open>The handler called \<open>n\<close> times for the same object.\<close>

definition run :: "ext \<Rightarrow> 'w DNSRecordReconciler \<Rightarrow> NamespacedName \<Rightarrow> nat \<Rightarrow> 'w \<Rightarrow> 'w" where
  "run E R req n w = ((\<lambda>w. snd (dnsReconcile E R req w)) ^^ n) w"

text \<open>The stored object, already defaulted by the webhook and handled by this provider.\<close>

definition tracked ::
  "ext \<Rightarrow> string \<Rightarrow> ('w \<Rightarrow> NamespacedName \<Rightarrow> DNSRecord option) \<Rightarrow> NamespacedName \<Rightarrow> rr \<Rightarrow> string
     \<Rightarrow> DNSRecord \<Rightarrow> 'w \<Rightarrow> bool" where
  "tracked E name get req rr zone r w \<longleftrightarrow>
     get w req = Some r \<and> keyOf r = req \<and> Default E r = r \<and> managed E name r rr zone"

text \<open>
  A stored object as the handler finds it: its defaulted form is handled by this provider, and
  it may lack defaults (no webhook has seen it) as long as the handler has not marked it.
\<close>

definition arrived ::
  "ext \<Rightarrow> string \<Rightarrow> ('w \<Rightarrow> NamespacedName \<Rightarrow> DNSRecord option) \<Rightarrow> NamespacedName \<Rightarrow> rr \<Rightarrow> string
     \<Rightarrow> DNSRecord \<Rightarrow> 'w \<Rightarrow> bool" where
  "arrived E name get req rr zone r w \<longleftrightarrow>
     get w req = Some r \<and> keyOf r = req \<and> managed E name (Default E r) rr zone
     \<and> (hasFinalizer r \<longrightarrow> Default E r = r)"

text \<open>The service holds the record and the status names it, under the finalizer.\<close>

definition bound ::
  "ext \<Rightarrow> ('w \<Rightarrow> string \<Rightarrow> LRecord list) \<Rightarrow> rr \<Rightarrow> string \<Rightarrow> DNSRecord \<Rightarrow> 'w \<Rightarrow> bool" where
  "bound E view rr zone r w \<longleftrightarrow>
     hasFinalizer r \<and> \<not> wantsGone r \<and> settled E view rr zone r w \<and> st_Record (r_Status r) = rrString E rr"

text \<open>The verification server answers with what the service holds.\<close>

definition answering ::
  "ext \<Rightarrow> 'w DNSRecordReconciler \<Rightarrow> ('w \<Rightarrow> string \<Rightarrow> LRecord list) \<Rightarrow> rr \<Rightarrow> string \<Rightarrow> bool" where
  "answering E R view rr zone \<longleftrightarrow>
     (\<forall>r w. settled E view rr zone r w \<longrightarrow> fst (lookup E R rr w) = Inr True)"

definition healthy ::
  "ext \<Rightarrow> string \<Rightarrow> ('w \<Rightarrow> NamespacedName \<Rightarrow> DNSRecord option) \<Rightarrow> ('w \<Rightarrow> string \<Rightarrow> LRecord list)
     \<Rightarrow> NamespacedName \<Rightarrow> rr \<Rightarrow> string \<Rightarrow> 'w \<Rightarrow> bool" where
  "healthy E name get view req rr zone w \<longleftrightarrow>
     (\<exists>r. tracked E name get req rr zone r w \<and> bound E view rr zone r w
          \<and> st_Active (r_Status r) = Some True)"

section \<open>Frames\<close>

lemma wired_D:
  assumes "wired E R name C get view"
  shows "rc_Provider R = lib_Reconcile E name C" "lawfulServer (rc_Client R) get"
    "lawfulClient C view" "quiet R get" "quiet R view" "apiKeeps (rc_Client R) view"
    "clientKeeps C get"
  using assms by (simp_all add: wired_def)

lemma quiet_events [simp]:
  assumes "quiet R obs"
  shows "obs (rec_Event E (rc_recorder R) ob reason msg w) = obs w"
    "obs (rec_Warn E (rc_recorder R) ob reason msg w) = obs w"
  using assms by (simp_all add: quiet_def rec_Event_def rec_Warn_def)

lemma quiet_exchange:
  assumes "quiet R obs"
  shows "obs (snd (exchangeLoop (rc_exchange R) q srv net nets w)) = obs w"
proof (induction nets arbitrary: net w)
  case Nil
  then show ?case using assms by (simp add: quiet_def)
next
  case (Cons n ns)
  have "obs (snd (rc_exchange R net q srv w)) = obs w" using assms by (simp add: quiet_def)
  with Cons show ?case by (auto split: prod.splits)
qed

lemma quiet_lookup:
  assumes "quiet R obs" and "lookup E R rr w = (x, w')"
  shows "obs w' = obs w"
proof -
  define q where "q = (\<lambda>i. \<lparr>q_Id = i, q_RecursionDesired = True,
    q_Question = [(h_Name (rrHeader rr), h_Rrtype (rrHeader rr), h_Class (rrHeader rr))]\<rparr>)"
  obtain i w1 where i: "rc_dnsId R w = (i, w1)" by fastforce
  obtain y w2 where e: "exchangeLoop (rc_exchange R) (q i) (rc_DNSVerificationServer R) ''udp'' [''tcp''] w1
      = (y, w2)" by fastforce
  have "w' = w2"
    using assms(2) i e unfolding lookup_def Let_def q_def by (cases y) simp_all
  moreover have "obs w1 = obs w" using assms(1) i unfolding quiet_def by (metis snd_conv)
  moreover have "obs w2 = obs w1"
    using quiet_exchange [OF assms(1), of "q i" "rc_DNSVerificationServer R" "''udp''" "[''tcp'']" w1] e
    by simp
  ultimately show ?thesis by simp
qed

lemma clientKeeps_lib:
  assumes "clientKeeps C obs" and "lib_Reconcile E name C r w = (out, r', w')"
  shows "obs w' = obs w"
proof -
  have g: "obs w1 = obs w" if "lc_GetRecords C z w = (x, w1)" for x z w w1
    using assms(1) that by (metis clientKeeps_def snd_conv)
  have a: "obs w1 = obs w" if "lc_AppendRecords C z rs w = (x, w1)" for x z rs w w1
    using assms(1) that by (metis clientKeeps_def snd_conv)
  have d: "obs w1 = obs w" if "lc_DeleteRecords C z rs w = (x, w1)" for x z rs w w1
    using assms(1) that by (metis clientKeeps_def snd_conv)
  have la: "obs w1 = obs w" if "lib_append name C z want r w = (x, r1, w1)" for z want w x r1 w1
    using that by (auto simp: lib_append_def dest!: a split: prod.splits option.splits if_splits)
  have le: "obs w1 = obs w" if "lib_ensure E name C z want recs found r w = (x, r1, w1)"
    for z want recs found w x r1 w1
    using that by (auto simp: lib_ensure_def Let_def dest!: d la split: prod.splits option.splits if_splits)
  have lr: "obs w1 = obs w" if "lib_remove C z found r w = (x, r1, w1)" for z found w x r1 w1
    using that by (auto simp: lib_remove_def dest!: d split: prod.splits option.splits)
  show ?thesis using assms(2)
    by (auto simp: lib_Reconcile_def Let_def dest!: g lr le split: prod.splits sum.splits if_splits)
qed

lemma api_writes:
  assumes "wired E R name C get view" and "get w (keyOf u) = Some r"
    and "m_ResourceVersion (r_Meta u) = m_ResourceVersion (r_Meta r)"
  obtains w' rv where "k_Update (rc_Client R) u w = (None, w')"
    and "get w' = (get w)(keyOf u :=
           if deletionRequested r \<and> m_Finalizers (r_Meta u) = []
           then None else Some (withRV rv (serverUpdate r u)))"
    and "view w' = view w"
  using lawful_Update [OF wired_D(2) [OF assms(1)] assms(2,3)] wired_D(6) [OF assms(1)]
  unfolding apiKeeps_def by (metis snd_conv)

lemma api_status:
  assumes "wired E R name C get view" and "get w (keyOf u) = Some r" and "onlyStatus r u"
  obtains w' rv where "k_StatusUpdate (rc_Client R) u w = (None, w')"
    and "get w' = (get w)(keyOf u \<mapsto> withRV rv u)" and "view w' = view w"
proof -
  have "r\<lparr>r_Status := r_Status u\<rparr> = u" using assms(3) by (simp add: onlyStatus_def)
  moreover have "m_ResourceVersion (r_Meta u) = m_ResourceVersion (r_Meta r)"
    using onlyStatus_sel [OF assms(3)] by simp
  ultimately show thesis
    using lawful_Status [OF wired_D(2) [OF assms(1)] assms(2)] wired_D(6) [OF assms(1)] that
    unfolding apiKeeps_def by (metis snd_conv)
qed

section \<open>One step\<close>

lemma tracked_start:
  assumes "wired E R name C get view" and "tracked E name get req rr zone r w"
  shows "dnsReconcile E R req w =
    (if deletionRequested r then reconcileDeleted E R req r w
     else if \<not> hasFinalizer r then doneOr (k_Update (rc_Client R) (setFinalizer r) w)
     else reconcileActive E R rr r w)"
  using assms(2) lawful_Get [OF wired_D(2) [OF assms(1)], of req w]
  by (simp add: dnsReconcile_def tracked_def managed_def deletionRequested_def)

lemma not_gone_not_deleted: "\<not> wantsGone r \<Longrightarrow> \<not> deletionRequested r"
  by (simp add: wantsGone_def deletionRequested_def)

lemma setFinalizer_sel [simp]:
  "keyOf (setFinalizer r) = keyOf r" "hasFinalizer (setFinalizer r)"
  "r_Spec (setFinalizer r) = r_Spec r" "r_Status (setFinalizer r) = r_Status r"
  "wantsGone (setFinalizer r) = wantsGone r" "deletionRequested (setFinalizer r) = deletionRequested r"
  "m_Finalizers (r_Meta (setFinalizer r)) \<noteq> []"
  "(setFinalizer r)\<lparr>r_Status := r_Status r\<rparr> = setFinalizer r"
  by (simp_all add: setFinalizer_def keyOf_def hasFinalizer_iff wantsGone_def deletionRequested_def)

lemma Default_kept:
  assumes "Default E r = r" and "r_Spec u = r_Spec r"
  shows "Default E u = u"
proof -
  have "defaultSpec E (r_Spec u) = r_Spec u" using assms Default_frame(4) [of E r] by simp
  then show ?thesis by (simp add: Default_def)
qed

lemma tracked_same_spec:
  assumes "tracked E name get req rr zone r w"
    and "get w' req = Some u" and "keyOf u = req" and "r_Spec u = r_Spec r"
    and "st_Provider (r_Status u) \<in> {[], name}"
  shows "tracked E name get req rr zone u w'"
proof -
  have "Default E r = r" using assms(1) by (simp add: tracked_def)
  then have "Default E u = u" using assms(4) by (rule Default_kept)
  with assms show ?thesis by (simp add: tracked_def managed_def ToRR_def)
qed

lemma settled_cong:
  assumes "st_ID (r_Status u) = st_ID (r_Status r)" and "view w' = view w"
  shows "settled E view rr zone u w' \<longleftrightarrow> settled E view rr zone r w"
  using assms by (simp add: settled_def)

lemma withRV_lifecycle [simp]:
  "wantsGone (withRV rv r) = wantsGone r" "hasFinalizer (withRV rv r) = hasFinalizer r"
  "bind_status (withRV rv r) p i = withRV rv (bind_status r p i)"
  "bound E view rr zone (withRV rv r) w = bound E view rr zone r w"
  by (simp_all add: wantsGone_def hasFinalizer_iff bind_status_def withRV_def bound_def settled_def)

lemma keyOf_Default [simp]: "keyOf (Default E r) = keyOf r"
  by (simp add: keyOf_def)

lemma hasFinalizer_Default [simp]: "hasFinalizer (Default E r) = hasFinalizer r"
  by (simp add: hasFinalizer_iff)

lemma wantsGone_Default [simp]: "wantsGone (Default E r) = wantsGone r"
  by (cases "sp_Active (r_Spec r)") (simp_all add: wantsGone_def defaultSpec_Active)

text \<open>The first write carries the defaulted spec, so an object that lacked defaults has them.\<close>

lemma finalizer_step:
  assumes "wired E R name C get view" and "psl_no_dot E" and "lower_stable E"
    and "arrived E name get req rr zone r w" and "\<not> wantsGone r" and "\<not> hasFinalizer r"
  shows "\<exists>w' u. dnsReconcile E R req w = (finished, w') \<and> view w' = view w
     \<and> tracked E name get req rr zone u w' \<and> \<not> wantsGone u \<and> hasFinalizer u
     \<and> r_Status u = r_Status r"
proof -
  let ?d = "Default E r"
  have k: "keyOf (setFinalizer ?d) = req" using assms(4) by (simp add: arrived_def)
  then have g: "get w (keyOf (setFinalizer ?d)) = Some r" using assms(4) by (simp add: arrived_def)
  have v: "m_ResourceVersion (r_Meta (setFinalizer ?d)) = m_ResourceVersion (r_Meta r)"
    by (simp add: setFinalizer_def)
  let ?u = "\<lambda>rv. withRV rv (setFinalizer ?d)"
  from assms(1) g v obtain w' rv where w': "k_Update (rc_Client R) (setFinalizer ?d) w = (None, w')"
    "get w' = (get w)(keyOf (setFinalizer ?d) :=
       if deletionRequested r \<and> m_Finalizers (r_Meta (setFinalizer ?d)) = [] then None
       else Some (withRV rv (serverUpdate r (setFinalizer ?d))))"
    "view w' = view w" by (rule api_writes)
  have "serverUpdate r (setFinalizer ?d) = setFinalizer ?d"
    by (simp add: serverUpdate_def setFinalizer_def)
  then have u: "get w' req = Some (?u rv)" "keyOf (?u rv) = req" using w'(2) k by simp_all
  have "Default E ?d = ?d" by (simp add: Default_def defaultSpec_idem [OF assms(2,3)])
  then have "Default E (?u rv) = ?u rv" by (rule Default_kept) simp
  then have "tracked E name get req rr zone (?u rv) w'"
    using u assms(4) by (simp add: tracked_def arrived_def managed_def ToRR_def)
  moreover have "dnsReconcile E R req w = (finished, w')"
    using assms(4-6) lawful_Get [OF wired_D(2) [OF assms(1)], of req w] w'(1) not_gone_not_deleted [OF assms(5)]
    by (simp add: dnsReconcile_def arrived_def managed_def deletionRequested_def)
  ultimately show ?thesis
    using assms(5) w'(3) by (intro exI [of _ w'] exI [of _ "?u rv"]) simp
qed

lemma status_step:
  assumes "wired E R name C get view" and "tracked E name get req rr zone r w"
    and "onlyStatus r u" and "st_Provider (r_Status u) \<in> {[], name}"
  shows "\<exists>w' rv. k_StatusUpdate (rc_Client R) u w = (None, w') \<and> view w' = view w
     \<and> tracked E name get req rr zone (withRV rv u) w'"
proof -
  have k: "keyOf u = req" "r_Spec u = r_Spec r"
    using assms(2) onlyStatus_sel [OF assms(3)] by (simp_all add: tracked_def keyOf_def)
  then have g: "get w (keyOf u) = Some r" using assms(2) by (simp add: tracked_def)
  from assms(1) g assms(3) obtain w' rv where "k_StatusUpdate (rc_Client R) u w = (None, w')"
    "get w' = (get w)(keyOf u \<mapsto> withRV rv u)" "view w' = view w" by (rule api_status)
  then show ?thesis using tracked_same_spec [OF assms(2), of w' "withRV rv u"] k assms(4) by auto
qed

lemma tracked_frame: "tracked E name get req rr zone r w \<Longrightarrow> get w' = get w \<Longrightarrow> tracked E name get req rr zone r w'"
  by (simp add: tracked_def)

lemma onlyStatus_wantsGone: "onlyStatus r u \<Longrightarrow> wantsGone u = wantsGone r \<and> hasFinalizer u = hasFinalizer r"
  using onlyStatus_sel [of r u] by (simp add: wantsGone_def hasFinalizer_def)

lemma tracked_active:
  assumes "tracked E name get req rr zone r w" and "bound E view rr zone r w"
  shows "sp_Active (r_Spec r) = Some True"
proof -
  have "sp_Active (r_Spec r) \<noteq> None"
    using assms(1) defaultSpec_Active_set [of E "r_Spec r"] by (metis Default_frame(4) tracked_def)
  moreover have "sp_Active (r_Spec r) \<noteq> Some False"
    using assms(2) by (simp add: bound_def wantsGone_def)
  ultimately show ?thesis by auto
qed

text \<open>Asking the DNS about a bound record that it knows.\<close>

lemma verify_step:
  assumes "wired E R name C get view" and "tracked E name get req rr zone r w"
    and "bound E view rr zone r w" and "fst (lookup E R rr w) = Inr True"
  shows "\<exists>w'. verifyRecord E R rr r w = (finished, w') \<and> view w' = view w
     \<and> healthy E name get view req rr zone w' \<and> (st_Active (r_Status r) = Some True \<longrightarrow> get w' = get w)"
proof -
  obtain w1 where l: "lookup E R rr w = (Inr True, w1)" using assms(4) by (metis prod.collapse)
  have q: "get w1 = get w" "view w1 = view w"
    using quiet_lookup [OF wired_D(4) [OF assms(1)] l] quiet_lookup [OF wired_D(5) [OF assms(1)] l] by auto
  have t1: "tracked E name get req rr zone r w1" by (rule tracked_frame [OF assms(2) q(1)])
  show ?thesis
  proof (cases "st_Active (r_Status r) = Some True")
    case True
    note act = tracked_active [OF assms(2,3)]
    let ?w = "rec_Event E (rc_recorder R) r ''Success'' (''record '' @ recordState True) w1"
    have k: "get ?w = get w" "view ?w = view w"
      using q wired_D(4,5) [OF assms(1)] by simp_all
    then have "healthy E name get view req rr zone ?w"
      using tracked_frame [OF assms(2) k(1)] assms(3) True settled_cong [of r r view ?w w E rr zone]
      by (auto simp: healthy_def bound_def)
    with k l True act show ?thesis
      by (simp add: verifyRecord_def)
  next
    case False
    let ?u = "r\<lparr>r_Status := (r_Status r)\<lparr>st_Active := ptr_Bool True\<rparr>\<rparr>"
    obtain w2 rv where w2: "k_StatusUpdate (rc_Client R) ?u w1 = (None, w2)" "view w2 = view w1"
      "tracked E name get req rr zone (withRV rv ?u) w2"
      using status_step [OF assms(1) t1, of ?u] assms(2) by (auto simp: tracked_def managed_def)
    have "bound E view rr zone ?u w2"
      using assms(3) settled_cong [of ?u r view w2 w E rr zone] w2(2) q(2)
        onlyStatus_wantsGone [OF onlyStatus_update [of r]]
      by (simp add: bound_def)
    moreover have "\<not> ptr_ToBoolD (st_Active (r_Status r)) False"
      using False by (auto simp: ptr_ToBoolD_def split: option.splits)
    ultimately show ?thesis
      using w2 l q False
      by (auto simp: verifyRecord_def healthy_def ptr_Bool_def intro!: exI [of _ "withRV rv ?u"])
  qed
qed

lemma answering_D: "answering E R view rr zone \<Longrightarrow> settled E view rr zone r w \<Longrightarrow> fst (lookup E R rr w) = Inr True"
  unfolding answering_def by blast

lemma bound_step:
  assumes "wired E R name C get view" and "tracked E name get req rr zone r w"
    and "bound E view rr zone r w" and "fst (lookup E R rr w) = Inr True"
  shows "\<exists>w'. dnsReconcile E R req w = (finished, w') \<and> view w' = view w
     \<and> healthy E name get view req rr zone w' \<and> (st_Active (r_Status r) = Some True \<longrightarrow> get w' = get w)"
proof -
  have b: "\<not> wantsGone r" "hasFinalizer r" "settled E view rr zone r w" "st_Record (r_Status r) = rrString E rr"
    using assms(3) by (simp_all add: bound_def)
  have "rc_Provider R r w = ((result0, True, None), r, w)"
    using settled_noop [OF wired_D(3) [OF assms(1)] _ b(1,3)] assms(2) wired_D(1) [OF assms(1)]
    by (simp add: tracked_def)
  then have "dnsReconcile E R req w = verifyRecord E R rr r w"
    using tracked_start [OF assms(1,2)] not_gone_not_deleted [OF b(1)] b(2,4)
    by (simp add: reconcileActive_def sameBinding_def)
  then show ?thesis using verify_step [OF assms] by simp
qed

lemma bind_step:
  assumes "wired E R name C get view" and "tracked E name get req rr zone r w"
    and "\<not> wantsGone r" and "hasFinalizer r" and "canonical E rr zone"
    and "\<not> taken E rr zone (view w zone) \<or> st_ID (r_Status r) \<in> l_ID ` set (view w zone)"
    and "answering E R view rr zone"
  shows "\<exists>r' w'. dnsReconcile E R req w = (finished, w') \<and> tracked E name get req rr zone r' w'
     \<and> bound E view rr zone r' w'"
proof -
  have m: "managed E name r rr zone" using assms(2) by (simp add: tracked_def)
  obtain r1 w1 where p: "lib_Reconcile E name C r w = ((result0, True, None), r1, w1)"
    and r1: "managed E name r1 rr zone" "\<not> wantsGone r1" "settled E view rr zone r1 w1"
    using ensure_settles [OF wired_D(3) [OF assms(1)] m assms(3,5,6)] by blast
  have o: "onlyStatus r r1" by (rule libdns.status_only [OF p])
  have t1: "tracked E name get req rr zone r w1"
    by (rule tracked_frame [OF assms(2) clientKeeps_lib [OF wired_D(7) [OF assms(1)] p]])
  have start: "dnsReconcile E R req w = reconcileActive E R rr r w"
    using tracked_start [OF assms(1,2)] not_gone_not_deleted [OF assms(3)] assms(4) by simp
  show ?thesis
  proof (cases "sameBinding r1 r \<and> st_Record (r_Status r1) = rrString E rr")
    case True
    then have eq: "r1 = r" using libdns.same_binding_same [OF p] by blast
    then have "bound E view rr zone r w1"
      using True r1 assms(3,4) by (simp add: bound_def)
    then have "\<exists>w'. verifyRecord E R rr r w1 = (finished, w') \<and> healthy E name get view req rr zone w'"
      using verify_step [OF assms(1) t1] answering_D [OF assms(7) r1(3)] by blast
    moreover have "dnsReconcile E R req w = verifyRecord E R rr r w1"
      using start p wired_D(1) [OF assms(1)] True eq by (simp add: reconcileActive_def)
    ultimately show ?thesis unfolding healthy_def by auto
  next
    case False
    let ?u = "r1\<lparr>r_Status := (r_Status r1)\<lparr>st_Record := rrString E rr\<rparr>\<rparr>"
    obtain w2 rv where w2: "k_StatusUpdate (rc_Client R) ?u w1 = (None, w2)" "view w2 = view w1"
      "tracked E name get req rr zone (withRV rv ?u) w2"
      using status_step [OF assms(1) t1, of ?u] o r1(1) by (auto simp: managed_def)
    have "bound E view rr zone ?u w2"
      using r1(2,3) o assms(4) settled_cong [of ?u r1 view w2 w1 E rr zone] w2(2)
        onlyStatus_wantsGone [OF onlyStatus_update [of r1]] onlyStatus_wantsGone [OF o]
      by (simp add: bound_def)
    moreover have "dnsReconcile E R req w = (finished, w2)"
      using start p wired_D(1) [OF assms(1)] False w2(1) by (simp add: reconcileActive_def)
    ultimately show ?thesis
      using w2(3) by (intro exI [of _ "withRV rv ?u"] exI [of _ w2]) simp
  qed
qed

lemma healthy_stays:
  assumes "wired E R name C get view" and "healthy E name get view req rr zone w"
    and "answering E R view rr zone"
  shows "\<exists>w'. dnsReconcile E R req w = (finished, w') \<and> get w' = get w \<and> view w' = view w
     \<and> healthy E name get view req rr zone w'"
proof -
  obtain r where r: "tracked E name get req rr zone r w" "bound E view rr zone r w" "st_Active (r_Status r) = Some True"
    using assms(2) by (auto simp: healthy_def)
  then have "fst (lookup E R rr w) = Inr True" using answering_D [OF assms(3)] by (auto simp: bound_def)
  then show ?thesis using bound_step [OF assms(1) r(1,2)] r(3) by blast
qed

lemma run_simps: "run E R req 0 w = w" "run E R req (Suc n) w = run E R req n (snd (dnsReconcile E R req w))"
  by (simp_all add: run_def funpow_Suc_right del: funpow.simps)

lemma finalized_healthy:
  assumes "wired E R name C get view" and "tracked E name get req rr zone r w"
    and "\<not> wantsGone r" and "hasFinalizer r" and "canonical E rr zone"
    and "\<not> taken E rr zone (view w zone) \<or> st_ID (r_Status r) \<in> l_ID ` set (view w zone)"
    and "answering E R view rr zone"
  shows "healthy E name get view req rr zone (run E R req 2 w)"
proof -
  obtain r1 w1 where 1: "dnsReconcile E R req w = (finished, w1)" "tracked E name get req rr zone r1 w1"
    "bound E view rr zone r1 w1" using bind_step [OF assms] by blast
  then have "fst (lookup E R rr w1) = Inr True" using answering_D [OF assms(7)] by (auto simp: bound_def)
  then obtain w2 where "dnsReconcile E R req w1 = (finished, w2)" "healthy E name get view req rr zone w2"
    using bound_step [OF assms(1) 1(2,3)] by blast
  with 1(1) show ?thesis by (simp add: numeral_2_eq_2 run_simps)
qed

lemma arrived_tracked:
  "arrived E name get req rr zone r w \<Longrightarrow> hasFinalizer r \<Longrightarrow> tracked E name get req rr zone r w"
  unfolding arrived_def tracked_def by auto

lemma healthy_three:
  assumes "wired E R name C get view" and "psl_no_dot E" and "lower_stable E"
    and "arrived E name get req rr zone r w" and "\<not> wantsGone r" and "canonical E rr zone"
    and "\<not> taken E rr zone (view w zone) \<or> st_ID (r_Status r) \<in> l_ID ` set (view w zone)"
    and "answering E R view rr zone"
  shows "healthy E name get view req rr zone (run E R req 3 w)"
proof (cases "hasFinalizer r")
  case True
  have "healthy E name get view req rr zone (run E R req 2 w)"
    by (rule finalized_healthy [OF assms(1) arrived_tracked [OF assms(4) True] assms(5) True assms(6-8)])
  from healthy_stays [OF assms(1) this assms(8)] show ?thesis
    by (auto simp: numeral_3_eq_3 numeral_2_eq_2 run_def)
next
  case False
  obtain w1 u where 1: "dnsReconcile E R req w = (finished, w1)" "view w1 = view w"
    "tracked E name get req rr zone u w1" "\<not> wantsGone u" "hasFinalizer u" "r_Status u = r_Status r"
    using finalizer_step [OF assms(1-5) False] by blast
  have "healthy E name get view req rr zone (run E R req 2 w1)"
    by (rule finalized_healthy [OF assms(1) 1(3-5) assms(6) _ assms(8)]) (use assms(7) 1(2,6) in simp)
  with 1(1) show ?thesis by (simp add: numeral_3_eq_3 numeral_2_eq_2 run_simps)
qed

section \<open>Deletion\<close>

lemma drop_step:
  assumes "wired E R name C get view" and "tracked E name get req rr zone r w"
    and "deletionRequested r" and "m_Finalizers (r_Meta r) = [RecordFinalizer]"
    and "sameBinding (bind_status r [] []) r"
  shows "\<exists>w'. dnsReconcile E R req w = (finished, w') \<and> get w' req = None
     \<and> view w' zone = filter (\<lambda>u. l_ID u \<noteq> st_ID (r_Status r)) (view w zone)"
proof -
  have m: "managed E name r rr zone" and g: "wantsGone r"
    using assms(2,3) by (simp_all add: tracked_def wantsGone_def deletionRequested_def)
  obtain w1 where p: "lib_Reconcile E name C r w = ((result0, True, None), bind_status r [] [], w1)"
    and vz: "view w1 zone = filter (\<lambda>u. l_ID u \<noteq> st_ID (r_Status r)) (view w zone)"
    using remove_lawful [OF wired_D(3) [OF assms(1)] m g] by blast
  have eq: "bind_status r [] [] = r" by (rule libdns.same_binding_same [OF p assms(5)])
  let ?w2 = "rec_Event E (rc_recorder R) r ''Deleted'' (''Deleted DNSRecord '' @ namespacedNameString req) w1"
  let ?u = "r\<lparr>r_Meta := (r_Meta r)\<lparr>m_Finalizers := []\<rparr>\<rparr>"
  have k2: "get ?w2 = get w" "view ?w2 = view w1"
    using clientKeeps_lib [OF wired_D(7) [OF assms(1)] p] wired_D(4,5) [OF assms(1)] by simp_all
  have u: "keyOf ?u = req" "deletionRequested ?u"
    using assms(2,3) by (simp_all add: tracked_def keyOf_def deletionRequested_def)
  then have k3: "get ?w2 (keyOf ?u) = Some r" using k2(1) assms(2) by (simp add: tracked_def)
  have v: "m_ResourceVersion (r_Meta ?u) = m_ResourceVersion (r_Meta r)" by simp
  from assms(1) k3 v obtain w3 rv where w3: "k_Update (rc_Client R) ?u ?w2 = (None, w3)"
    "get w3 = (get ?w2)(keyOf ?u := if deletionRequested r \<and> m_Finalizers (r_Meta ?u) = []
       then None else Some (withRV rv (serverUpdate r ?u)))" "view w3 = view ?w2"
    by (rule api_writes)
  have "removeFinalizer r = (True, ?u)"
    using removeFinalizer_split [of r "[]" "[]"] assms(4) by simp
  then have "reconcileDeleted E R req r w = (finished, w3)"
    using p eq wired_D(1) [OF assms(1)] w3(1) by (simp add: reconcileDeleted_def sameBinding_def)
  then show ?thesis
    using tracked_start [OF assms(1,2)] assms(3) w3(2,3) u k2(2) vz by simp
qed

lemma unbind_step:
  assumes "wired E R name C get view" and "tracked E name get req rr zone r w"
    and "deletionRequested r" and "\<not> sameBinding (bind_status r [] []) r"
  shows "\<exists>w' rv. dnsReconcile E R req w = (finished, w')
     \<and> tracked E name get req rr zone (withRV rv (bind_status r [] [])) w'
     \<and> view w' zone = filter (\<lambda>u. l_ID u \<noteq> st_ID (r_Status r)) (view w zone)"
proof -
  have m: "managed E name r rr zone" and g: "wantsGone r"
    using assms(2,3) by (simp_all add: tracked_def wantsGone_def deletionRequested_def)
  obtain w1 where p: "lib_Reconcile E name C r w = ((result0, True, None), bind_status r [] [], w1)"
    and v: "view w1 zone = filter (\<lambda>u. l_ID u \<noteq> st_ID (r_Status r)) (view w zone)"
    using remove_lawful [OF wired_D(3) [OF assms(1)] m g] by blast
  have t1: "tracked E name get req rr zone r w1"
    by (rule tracked_frame [OF assms(2) clientKeeps_lib [OF wired_D(7) [OF assms(1)] p]])
  obtain w2 rv where w2: "k_StatusUpdate (rc_Client R) (bind_status r [] []) w1 = (None, w2)" "view w2 = view w1"
      "tracked E name get req rr zone (withRV rv (bind_status r [] [])) w2"
    using status_step [OF assms(1) t1 libdns.status_only [OF p]] by auto
  then have "reconcileDeleted E R req r w = (finished, w2)"
    using p wired_D(1) [OF assms(1)] assms(4) by (simp add: reconcileDeleted_def)
  then show ?thesis using tracked_start [OF assms(1,2)] assms(3) w2(2,3) v by auto
qed

lemma deleted_gone:
  assumes "wired E R name C get view" and "tracked E name get req rr zone r w"
    and "deletionRequested r" and "m_Finalizers (r_Meta r) = [RecordFinalizer]"
  shows "\<exists>n \<le> 2. get (run E R req n w) req = None
     \<and> view (run E R req n w) zone = filter (\<lambda>u. l_ID u \<noteq> st_ID (r_Status r)) (view w zone)"
proof (cases "sameBinding (bind_status r [] []) r")
  case True
  then obtain w' where "dnsReconcile E R req w = (finished, w')" "get w' req = None"
    "view w' zone = filter (\<lambda>u. l_ID u \<noteq> st_ID (r_Status r)) (view w zone)"
    using drop_step [OF assms] by blast
  then show ?thesis by (intro exI [of _ "Suc 0"]) (simp add: run_simps)
next
  case False
  obtain w1 rv where 1: "dnsReconcile E R req w = (finished, w1)"
    "tracked E name get req rr zone (withRV rv (bind_status r [] [])) w1"
    "view w1 zone = filter (\<lambda>u. l_ID u \<noteq> st_ID (r_Status r)) (view w zone)"
    using unbind_step [OF assms(1-3) False] by blast
  let ?r = "withRV rv (bind_status r [] [])"
  have "deletionRequested ?r" "m_Finalizers (r_Meta ?r) = [RecordFinalizer]" "sameBinding (bind_status ?r [] []) ?r"
    using assms(3,4) by (simp_all add: deletionRequested_def sameBinding_def)
  then obtain w2 where 2: "dnsReconcile E R req w1 = (finished, w2)" "get w2 req = None"
    "view w2 zone = filter (\<lambda>u. l_ID u \<noteq> st_ID (r_Status ?r)) (view w1 zone)"
    using drop_step [OF assms(1) 1(2)] by blast
  have "view w2 zone = view w1 zone"
    using 2(3) lawful_IDs [OF wired_D(3) [OF assms(1)]] by (simp add: filter_id_conv)
  with 1 2 show ?thesis by (intro exI [of _ 2]) (simp add: numeral_2_eq_2 run_simps)
qed

text \<open>An object that waits for deletion behind a finalizer that follows ours.\<close>

definition stuck :: "('w \<Rightarrow> NamespacedName \<Rightarrow> DNSRecord option) \<Rightarrow> NamespacedName \<Rightarrow> 'w \<Rightarrow> bool" where
  "stuck get req w \<longleftrightarrow>
     (\<exists>r pre post. get w req = Some r \<and> keyOf r = req \<and> deletionRequested r
        \<and> m_Finalizers (r_Meta r) = pre @ RecordFinalizer # post
        \<and> RecordFinalizer \<notin> set pre \<and> post \<noteq> [])"

definition providerKeeps :: "'w provider \<Rightarrow> ('w \<Rightarrow> 'a) \<Rightarrow> bool" where
  "providerKeeps P obs \<longleftrightarrow> (\<forall>r w. obs (snd (snd (P r w))) = obs w)"

text \<open>A write that leaves our finalizer in front of another one.\<close>

lemma update_stuck:
  assumes "lawfulServer K get" and "get w req = Some r0" and "deletionRequested r0" and "keyOf u = req"
    and "m_ResourceVersion (r_Meta u) = m_ResourceVersion (r_Meta r0)"
    and "m_Finalizers (r_Meta u) = RecordFinalizer # post" and "others \<noteq> []" and "post = others @ others"
  shows "\<exists>w'. k_Update K u w = (None, w') \<and> stuck get req w'"
proof -
  have "get w (keyOf u) = Some r0" using assms(2,4) by simp
  with assms(1,5) obtain w' v where w': "k_Update K u w = (None, w')"
    "get w' = (get w)(keyOf u := if deletionRequested r0 \<and> m_Finalizers (r_Meta u) = []
       then None else Some (withRV v (serverUpdate r0 u)))"
    using lawful_Update by metis
  let ?x = "withRV v (serverUpdate r0 u)"
  have "get w' req = Some ?x" "keyOf ?x = req"
    using w'(2) assms(4,6) by (simp_all add: keyOf_def withRV_def serverUpdate_def)
  moreover have "deletionRequested ?x" "m_Finalizers (r_Meta ?x) = RecordFinalizer # post"
    using assms(3,6) by (simp_all add: deletionRequested_def)
  ultimately have "stuck get req w'"
    using assms(7,8) unfolding stuck_def
    by (intro exI [of _ ?x] exI [of _ "[]"] exI [of _ post]) simp
  then show ?thesis using w'(1) by blast
qed

context provider_contract
begin

lemma stuck_deleted:
  assumes "rc_Provider R = reconcile" and "lawfulServer (rc_Client R) get" and "quiet R get"
    and "providerKeeps reconcile get" and "get w req = Some r0" and "keyOf r0 = req"
    and "r_Meta r = r_Meta r0" and "deletionRequested r"
    and "m_Finalizers (r_Meta r) = pre @ RecordFinalizer # post"
    and "RecordFinalizer \<notin> set pre" and "post \<noteq> []"
  shows "stuck get req (snd (reconcileDeleted E R req r w))
    \<and> (fst (snd (fst (reconcile r w))) \<longrightarrow> fst (reconcileDeleted E R req r w) = finished)"
proof -
  obtain res ok err r1 w1 where p: "reconcile r w = ((res, ok, err), r1, w1)"
    by (metis prod_cases3)
  have g1: "get w1 = get w" using assms(4) p unfolding providerKeeps_def by (metis snd_conv)
  have r1: "r_Meta r1 = r_Meta r" using onlyStatus_sel [OF status_only [OF p]] by simp
  have k: "keyOf r1 = req" and rv: "m_ResourceVersion (r_Meta r1) = m_ResourceVersion (r_Meta r0)"
    using r1 assms(6,7) by (simp_all add: keyOf_def)
  have st: "stuck get req w'" if "get w' req = Some x" "keyOf x = keyOf r0" "deletionRequested x = deletionRequested r0"
    "m_Finalizers (r_Meta x) = m_Finalizers (r_Meta r)" for x w'
    using that assms(6-11) by (auto simp: stuck_def deletionRequested_def)
  consider (no) "\<not> ok" | (status) "ok" "\<not> sameBinding r1 r" | (drop) "ok" "sameBinding r1 r" by blast
  then show ?thesis
  proof cases
    case no
    then show ?thesis using p assms(1) st [of w1 r0] g1 assms(5,7) by (simp add: reconcileDeleted_def)
  next
    case status
    have "get w1 (keyOf r1) = Some r0" using k g1 assms(5) by simp
    from assms(2) this rv obtain w2 v where "k_StatusUpdate (rc_Client R) r1 w1 = (None, w2)"
      "get w2 = (get w1)(keyOf r1 \<mapsto> withRV v (r0\<lparr>r_Status := r_Status r1\<rparr>))"
      by (rule lawful_Status)
    then show ?thesis
      using p assms(1,7) status k st [of w2 "withRV v (r0\<lparr>r_Status := r_Status r1\<rparr>)"]
      by (simp add: reconcileDeleted_def deletionRequested_def)
  next
    case drop
    let ?w2 = "rec_Event E (rc_recorder R) r1 ''Deleted'' (''Deleted DNSRecord '' @ namespacedNameString req) w1"
    let ?u = "r1\<lparr>r_Meta := (r_Meta r1)\<lparr>m_Finalizers := RecordFinalizer # post @ post\<rparr>\<rparr>"
    have g2: "get ?w2 req = Some r0" using g1 assms(3,5) by simp
    have d: "deletionRequested r0" using assms(7,8) by (simp add: deletionRequested_def)
    have u: "keyOf ?u = req" "m_ResourceVersion (r_Meta ?u) = m_ResourceVersion (r_Meta r0)"
      "m_Finalizers (r_Meta ?u) = RecordFinalizer # post @ post"
      using k rv by (simp_all add: keyOf_def)
    obtain w3 where w3: "k_Update (rc_Client R) ?u ?w2 = (None, w3)" "stuck get req w3"
      using update_stuck [where get = get and w = ?w2 and req = req, OF assms(2) g2 d u assms(11) refl] by blast
    have "removeFinalizer r1 = (True, ?u)"
      using removeFinalizer_split [of r1 pre post] assms(9-11) r1 by simp
    then have "reconcileDeleted E R req r w = (finished, w3)"
      using p assms(1) drop w3(1) by (simp add: reconcileDeleted_def)
    then show ?thesis using w3(2) by simp
  qed
qed

lemma stuck_step:
  assumes "rc_Provider R = reconcile" and "lawfulServer (rc_Client R) get" and "quiet R get"
    and "providerKeeps reconcile get" and "stuck get req w"
  shows "stuck get req (snd (dnsReconcile E R req w))"
    and "get w req = Some r \<Longrightarrow> ToRR E (Default E r) = Inr rr \<Longrightarrow> fst (snd (fst (reconcile (Default E r) w))) \<Longrightarrow>
      fst (dnsReconcile E R req w) = finished"
proof -
  obtain r0 pre post where r0: "get w req = Some r0" "keyOf r0 = req" "deletionRequested r0"
    "m_Finalizers (r_Meta r0) = pre @ RecordFinalizer # post" "RecordFinalizer \<notin> set pre" "post \<noteq> []"
    using assms(5) by (auto simp: stuck_def)
  have k: "k_Get (rc_Client R) req w = (Inr r0, w)" using lawful_Get [OF assms(2)] r0(1) by simp
  have d: "dnsReconcile E R req w = reconcileDeleted E R req (Default E r0) w" if "ToRR E (Default E r0) = Inr rr" for rr
    using that k r0(3) by (simp add: dnsReconcile_def deletionRequested_def)
  note del = stuck_deleted [OF assms(1-4) r0(1,2), of "Default E r0" pre post E]
  show "stuck get req (snd (dnsReconcile E R req w))"
  proof (cases "ToRR E (Default E r0)")
    case (Inl e)
    let ?w = "rec_Warn E (rc_recorder R) (Default E r0) ''Error'' (error_text e) w"
    have "get ?w = get w" using assms(3) by simp
    then show ?thesis using Inl k assms(5) by (simp add: dnsReconcile_def stuck_def)
  next
    case (Inr rr)
    then show ?thesis using del r0 d [OF Inr] by (simp add: deletionRequested_def)
  qed
  show "fst (dnsReconcile E R req w) = finished"
    if "get w req = Some r" "ToRR E (Default E r) = Inr rr" "fst (snd (fst (reconcile (Default E r) w)))"
    using that del r0 d [of rr] by (simp add: deletionRequested_def)
qed

lemma stuck_run:
  assumes "rc_Provider R = reconcile" and "lawfulServer (rc_Client R) get" and "quiet R get"
    and "providerKeeps reconcile get" and "stuck get req w"
  shows "stuck get req (run E R req n w)"
  using assms(5) by (induction n arbitrary: w) (simp_all add: run_simps stuck_step(1) [OF assms(1-4)])

end

section \<open>Example world\<close>

lemma exProvider_lib: "exProvider = lib_Reconcile exExt ''mem'' (sndClient memClient)"
  by (simp add: exProvider_def providerOf_def fun_eq_iff)

lemma ex_quiet: "quiet (exRc P rr) obs"
  by (simp add: quiet_def exRc_def)

lemma ex_wired: "wired exExt (exRc exProvider rr) ''mem'' (sndClient memClient) memGet (\<lambda>w. memView (snd w))"
proof -
  have "clientKeeps (sndClient memClient) memGet"
    by (auto simp: clientKeeps_def sndClient_def memGet_def split: prod.splits)
  moreover have "apiKeeps memK (\<lambda>w. memView (snd w))"
    by (simp add: apiKeeps_def memK_def)
  ultimately show ?thesis
    by (simp add: wired_def exProvider_lib ex_quiet memK_lawful sndClient_lawful [OF memClient_lawful])
qed

lemma ex_providerKeeps: "providerKeeps exProvider memGet"
proof -
  have "memGet (snd (snd (lib_Reconcile exExt ''mem'' (sndClient memClient) r w))) = memGet w" for r w
    by (rule clientKeeps_lib [OF wired_D(7) [OF ex_wired], of exExt "''mem''" r w
        "fst (lib_Reconcile exExt ''mem'' (sndClient memClient) r w)"
        "fst (snd (lib_Reconcile exExt ''mem'' (sndClient memClient) r w))"]) simp
  then show ?thesis by (simp add: providerKeeps_def exProvider_lib)
qed

definition exStored :: DNSRecord where
  "exStored = exValid\<lparr>r_Spec := (r_Spec exValid)\<lparr>sp_Active := Some True\<rparr>\<rparr>"

definition exBare :: DNSRecord where
  "exBare = exStored\<lparr>r_Spec := emptySpec\<lparr>sp_A := Some \<lparr>a_Name = ''www.example.org'', a_Class = 0, a_Ttl = 60,
     a_Target = ''10.0.0.1''\<rparr>\<rparr>\<rparr>"

definition exLeaving :: "string list \<Rightarrow> DNSRecord" where
  "exLeaving fs = exStored\<lparr>r_Meta := (r_Meta exStored)\<lparr>m_DeletionTimestamp := Some 1, m_Finalizers := fs\<rparr>\<rparr>"

lemma exStored_facts:
  "keyOf exStored = exKey" "Default exExt exStored = exStored" "\<not> wantsGone exStored"
  "managed exExt ''mem'' exStored exRR ''example.org.''"
proof -
  have "enforceFqdn exExt ''www.example.org.'' = ''www.example.org.''"
    by (simp add: enforceFqdn_def toLower_def isASCII_def lowerByte_def exPsl_def exDomain_def
        hasSuffix_def Let_def char_eval)
  then show "Default exExt exStored = exStored"
    by (simp add: Default_def defaultSpec_def defaultKind_def defaultA_def dflt_def exStored_def exValid_def
        exRecord_def)
  show "keyOf exStored = exKey" by (simp add: exStored_def)
  show "\<not> wantsGone exStored"
    by (simp add: wantsGone_def exStored_def exValid_def exRecord_def emptyMeta_def timeIsZero_def)
  have "ToRR exExt exStored = ToRR exExt exValid"
    by (simp add: ToRR_def specToRR_def exStored_def exValid_def)
  then show "managed exExt ''mem'' exStored exRR ''example.org.''"
    using exValid_managed by (simp add: managed_def exStored_def)
qed

lemma exStored_tracked:
  "tracked exExt ''mem'' memGet exKey exRR ''example.org.'' exStored ([exStored], z)"
  using exStored_facts by (simp add: tracked_def memGet_def)

lemma exBare_arrived:
  "arrived exExt ''mem'' memGet exKey exRR ''example.org.'' exBare ([exBare], z)" "\<not> wantsGone exBare"
  "Default exExt exBare = exStored" "exBare \<noteq> exStored"
proof -
  have "enforceFqdn exExt ''www.example.org'' = ''www.example.org.''"
    by (simp add: enforceFqdn_def toLower_def isASCII_def lowerByte_def exPsl_def exDomain_def
        hasSuffix_def Let_def char_eval)
  then show d: "Default exExt exBare = exStored"
    by (simp add: Default_def defaultSpec_def defaultKind_def defaultA_def dflt_def exBare_def exStored_def exValid_def
        exRecord_def emptySpec_def ptr_Bool_def)
  have f: "\<not> hasFinalizer exBare" by (simp add: hasFinalizer_iff exBare_def exStored_def exValid_def exRecord_def emptyMeta_def)
  have k: "keyOf exBare = exKey" using exStored_facts(1) by (simp add: exBare_def keyOf_def)
  then show "arrived exExt ''mem'' memGet exKey exRR ''example.org.'' exBare ([exBare], z)"
    using d f exStored_facts(4) by (simp add: arrived_def memGet_def)
  show "\<not> wantsGone exBare" using wantsGone_Default [of exExt exBare] d exStored_facts(3) by simp
  show "exBare \<noteq> exStored" by (simp add: exBare_def exStored_def exValid_def exRecord_def emptySpec_def)
qed

lemma exLeaving_tracked:
  "tracked exExt ''mem'' memGet exKey exRR ''example.org.'' (exLeaving fs) ([exLeaving fs], z)"
  "deletionRequested (exLeaving fs)" "m_Finalizers (r_Meta (exLeaving fs)) = fs"
proof -
  have "memGet ([exLeaving fs], z) exKey = Some (exLeaving fs)"
    using exStored_facts(1) by (simp add: memGet_def exLeaving_def keyOf_def)
  then show "tracked exExt ''mem'' memGet exKey exRR ''example.org.'' (exLeaving fs) ([exLeaving fs], z)"
    by (rule tracked_same_spec [OF exStored_tracked])
      (use exStored_facts(1) exStored_facts(4) in \<open>simp_all add: exLeaving_def keyOf_def managed_def\<close>)
qed (simp_all add: exLeaving_def deletionRequested_def timeIsZero_def)

lemma ex_answering: "answering exExt (exRc P exRR) view exRR zone"
  by (simp add: answering_def lookup_def Let_def)

section \<open>Properties\<close>

text \<open>
  C1. Life of a record, between an API server and a DNS service that behave as documented. Take
  a stored record that is wanted (active, not being deleted), whose defaulted form converts to
  a record of a zone, and that is not bound to another provider; it may still lack defaults, as
  an object submitted without the webhook does, unless it carries our finalizer. Assume that
  normalising the record's text changes nothing (this excludes TXT values with a space or a
  quote at either end), that no other record of the zone has its name, type and value unless
  the status names an existing record, and that the verification server answers with what the
  service holds. Then three calls of the handler bring it to a healthy state: finalizer set,
  the record held by the DNS service under the ID in the status, the status showing its text and
  that it is active. From then on every further call ends without error and changes neither
  the API server's objects nor the service.
\<close>

theorem dns_lifecycle:
  assumes "wired E R name C get view" and "psl_no_dot E" and "lower_stable E"
    and "arrived E name get req rr zone r w" and "\<not> wantsGone r" and "canonical E rr zone"
    and "\<not> taken E rr zone (view w zone) \<or> st_ID (r_Status r) \<in> l_ID ` set (view w zone)"
    and "answering E R view rr zone"
  shows "healthy E name get view req rr zone (run E R req (3 + n) w)
    \<and> fst (dnsReconcile E R req (run E R req (3 + n) w)) = finished
    \<and> get (run E R req (3 + n) w) = get (run E R req 3 w)
    \<and> view (run E R req (3 + n) w) = view (run E R req 3 w)"
proof -
  have run_Suc: "run E R req (3 + Suc n) w = snd (dnsReconcile E R req (run E R req (3 + n) w))" for n
    by (simp only: run_def add_Suc_right funpow.simps comp_apply)
  have h: "healthy E name get view req rr zone (run E R req (3 + n) w)
    \<and> get (run E R req (3 + n) w) = get (run E R req 3 w)
    \<and> view (run E R req (3 + n) w) = view (run E R req 3 w)"
  proof (induction n)
    case 0
    show ?case using healthy_three [OF assms] by simp
  next
    case (Suc n)
    then show ?case
      using healthy_stays [OF assms(1) _ assms(8), of req "run E R req (3 + n) w"]
      unfolding run_Suc by force
  qed
  with healthy_stays [OF assms(1) _ assms(8)] show ?thesis by fastforce
qed

text \<open>The object of the example is stored without its defaults.\<close>

theorem dns_lifecycle_witness:
  "healthy exExt ''mem'' memGet (\<lambda>w. memView (snd w)) exKey exRR ''example.org.''
     (run exExt (exRc exProvider exRR) exKey (3 + 1) ([exBare], (\<lambda>z. [])))"
  using dns_lifecycle [OF ex_wired exExt_laws(2,3) exBare_arrived(1,2) exRR_canonical _ ex_answering,
      of "\<lambda>z. []" 1]
  by (simp add: taken_def memView_def)

text \<open>
  C2. Death of a record. For an object marked for deletion whose only finalizer is ours, two
  calls suffice: the bound record, and nothing else, leaves the zone, and the object leaves
  the API server; calls after that find no object and do nothing.
\<close>

theorem dns_deletion:
  assumes "wired E R name C get view" and "tracked E name get req rr zone r w"
    and "deletionRequested r" and "m_Finalizers (r_Meta r) = [RecordFinalizer]"
  shows "\<exists>n \<le> 2. get (run E R req n w) req = None
     \<and> view (run E R req n w) zone = filter (\<lambda>u. l_ID u \<noteq> st_ID (r_Status r)) (view w zone)
     \<and> dnsReconcile E R req (run E R req n w) = (finished, run E R req n w)"
proof -
  have "dnsReconcile E R req w' = (finished, w')" if "get w' req = None" for w'
    using lawful_Get [OF wired_D(2) [OF assms(1)], of req w'] that by (simp add: dnsReconcile_def)
  then show ?thesis using deleted_gone [OF assms] by blast
qed

theorem dns_deletion_witness:
  "\<exists>n \<le> 2. memGet (run exExt (exRc exProvider exRR) exKey n ([exLeaving [RecordFinalizer]], (\<lambda>z. []))) exKey = None"
  using dns_deletion [OF ex_wired exLeaving_tracked(1,2,3)] by blast

text \<open>
  C20. A finalizer of another owner that follows ours keeps the object: \<^verbatim>\<open>removeFinalizer\<close>
  writes ours back, so that however often the handler runs, with whatever provider of the
  registry, the object stays with our finalizer on it and its deletion pending. Nobody is told:
  each of these calls for which the object converts and the provider reports success ends
  without an error and without a request to be called again.
\<close>

theorem dns_finalizer_stuck:
  assumes "rc_Provider R = providerOf E clients pv" and "lawfulServer (rc_Client R) get"
    and "quiet R get" and "providerKeeps (providerOf E clients pv) get"
    and "get w req = Some r" and "keyOf r = req" and "deletionRequested r"
    and "m_Finalizers (r_Meta r) = pre @ RecordFinalizer # post" and "RecordFinalizer \<notin> set pre"
    and "post \<noteq> []"
  shows "\<exists>r'. get (run E R req n w) req = Some r' \<and> hasFinalizer r' \<and> deletionRequested r'
    \<and> ((\<exists>rr. ToRR E (Default E r') = Inr rr)
         \<and> fst (snd (fst (providerOf E clients pv (Default E r') (run E R req n w)))) \<longrightarrow>
       fst (dnsReconcile E R req (run E R req n w)) = finished)"
proof -
  have "stuck get req w" using assms(5-10) unfolding stuck_def by blast
  then have s: "stuck get req (run E R req n w)" by (rule registered.stuck_run [OF assms(1-4)])
  then obtain r' where "get (run E R req n w) req = Some r'" "hasFinalizer r'" "deletionRequested r'"
    unfolding stuck_def hasFinalizer_iff by (metis in_set_conv_decomp)
  then show ?thesis using registered.stuck_step(2) [OF assms(1-4) s] by blast
qed

theorem dns_finalizer_stuck_witness:
  "\<exists>r'. memGet (run exExt (exRc exProvider exRR) exKey 100
      ([exLeaving [RecordFinalizer, ''foregroundDeletion'']], (\<lambda>z. []))) exKey = Some r' \<and> hasFinalizer r'"
proof -
  let ?r = "exLeaving [RecordFinalizer, ''foregroundDeletion'']"
  let ?P = "providerOf exExt (\<lambda>_. sndClient memClient) (LibdnsProvider ''mem'' (HetznerClient ''t'') True)"
  let ?w = "([?r], (\<lambda>z. [])) :: exWorld"
  have P: "rc_Provider (exRc exProvider exRR) = ?P" by (simp add: exProvider_def)
  have k: "providerKeeps ?P memGet"
    using ex_providerKeeps unfolding exProvider_def .
  have g: "memGet ?w exKey = Some ?r" "keyOf ?r = exKey"
    using exLeaving_tracked(1) [of "[RecordFinalizer, ''foregroundDeletion'']" "\<lambda>z::string. [] :: LRecord list"]
    by (simp_all add: tracked_def)
  have f: "m_Finalizers (r_Meta ?r) = [] @ RecordFinalizer # [''foregroundDeletion'']"
    by (simp add: exLeaving_tracked)
  have empty: "RecordFinalizer \<notin> set []" and e: "[''foregroundDeletion''] \<noteq> []" by simp_all
  have s: "lawfulServer (rc_Client (exRc exProvider exRR)) memGet" by (simp add: memK_lawful)
  from dns_finalizer_stuck [where get = memGet and w = ?w, OF P s ex_quiet k g exLeaving_tracked(2) f empty e, of 100]
  show ?thesis by (elim exE conjE) (rule exI, rule conjI)
qed

text \<open>
  C27. Two switches, two orders: \<^verbatim>\<open>Default\<close> and \<^verbatim>\<open>validate\<close> look at CNAME before TXT, \<^verbatim>\<open>ToRR\<close> at
  TXT before CNAME. An object without an A part, with a CNAME part and with a TXT part that has
  no text is admitted exactly if the names of the CNAME part are absolute or have a registrable
  domain. Once it is stored, every call of the handler fails with the same error, whatever the
  provider, and changes no object: it is never published, and a pending deletion never
  completes, since the conversion comes before the deletion.
\<close>

theorem admitted_never_reconciled:
  assumes "psl_suffix E" and "lawfulServer (rc_Client R) get" and "quiet R get"
    and "sp_A (r_Spec r) = None" and "sp_CNAME (r_Spec r) = Some c" and "sp_TXT (r_Spec r) = Some t"
    and "txt_Targets t = []" and "get w req = Some (Default E r)"
  shows "(ValidateCreate E (Default E r) = None \<longleftrightarrow> nameOk E (cname_Name c) \<and> nameOk E (cname_Target c))
    \<and> fst (dnsReconcile E R req (run E R req n w)) = Done result0 (Some (Errorf ''empty TXT record''))
    \<and> get (run E R req n w) = get w"
proof -
  have k: "sp_A (defaultSpec E sp) = None \<and> (\<exists>c. sp_CNAME (defaultSpec E sp) = Some c) \<and> sp_TXT (defaultSpec E sp) = Some t"
    if "sp_A sp = None" "sp_CNAME sp = Some c" "sp_TXT sp = Some t" for sp c
    using that by (simp add: defaultSpec_def defaultKind_def)
  have "ToRR E (Default E (Default E r)) = Inl (Errorf ''empty TXT record'')"
    using k [OF assms(4-6)] k [of "defaultSpec E (r_Spec r)"] assms(7) by (auto simp: ToRR_def specToRR_def)
  then have step: "dnsReconcile E R req v = (Done result0 (Some (Errorf ''empty TXT record'')),
      rec_Warn E (rc_recorder R) (Default E (Default E r)) ''Error'' (error_text (Errorf ''empty TXT record'')) v)"
    if "get v = get w" for v
    using that assms(8) lawful_Get [OF assms(2), of req v] by (simp add: dnsReconcile_def)
  have run: "get (run E R req n w) = get w" for n
  proof (induction n)
    case (Suc n)
    then show ?case using step [OF Suc] assms(3) by (simp add: run_def)
  qed (simp add: run_def)
  have "ValidateCreate E (Default E r) = None \<longleftrightarrow> nameOk E (cname_Name c) \<and> nameOk E (cname_Target c)"
    using assms(4,5)
    by (simp add: ValidateCreate_def validate_None_iff validateSpec_def defaultSpec_def defaultKind_def default_defs
        validateCNAME_Nil enforceFqdn_dot_iff [OF assms(1)])
  then show ?thesis using step [OF run] run by simp
qed

text \<open>The example is being deleted.\<close>

theorem admitted_never_reconciled_witness:
  "let r = exTwoKinds\<lparr>r_Meta := (r_Meta exTwoKinds)\<lparr>m_DeletionTimestamp := Some 1, m_Finalizers := [RecordFinalizer]\<rparr>\<rparr>;
       w = ([Default exExt r], ())
   in ValidateCreate exExt (Default exExt r) = None
      \<and> memGet (run exExt (exRc noop_Reconcile exRR) exKey 100 w) = memGet w
      \<and> fst (dnsReconcile exExt (exRc noop_Reconcile exRR) exKey (run exExt (exRc noop_Reconcile exRR) exKey 100 w))
          = Done result0 (Some (Errorf ''empty TXT record''))"
proof -
  let ?r = "exTwoKinds\<lparr>r_Meta := (r_Meta exTwoKinds)\<lparr>m_DeletionTimestamp := Some 1, m_Finalizers := [RecordFinalizer]\<rparr>\<rparr>"
  let ?w = "([Default exExt ?r], ()) :: DNSRecord list \<times> unit"
  obtain c t where ct: "sp_CNAME (r_Spec ?r) = Some c" "sp_TXT (r_Spec ?r) = Some t" "txt_Targets t = []"
    "cname_Name c = ''www.example.org.''" "cname_Target c = ''example.org.''"
    by (simp add: exTwoKinds_def)
  have a: "sp_A (r_Spec ?r) = None" by (simp add: exTwoKinds_def)
  have "keyOf exTwoKinds = exKey" using exStored_facts(1) by (simp add: exTwoKinds_def exStored_def exValid_def keyOf_def)
  then have g: "memGet ?w exKey = Some (Default exExt ?r)" by (simp add: memGet_def keyOf_def)
  have s: "lawfulServer (rc_Client (exRc noop_Reconcile exRR)) memGet" by (simp add: memK_lawful)
  have "nameOk exExt (cname_Name c) \<and> nameOk exExt (cname_Target c)"
    unfolding ct by (simp add: nameOk_def toLower_def isASCII_def lowerByte_def hasSuffix_def)
  then show ?thesis
    using admitted_never_reconciled [where get = memGet and w = ?w, OF exExt_laws(1) s ex_quiet a ct(1-3) g, of 100]
    by (simp add: Let_def)
qed

end
