(* ===== verification/Coredns_Plugin.thy ===== *)
theory Coredns_Plugin
  imports Dns_Record "HOL-Library.List_Lexorder" "HOL-Library.Char_ord"
begin

text \<open>
  Component \<^verbatim>\<open>pkg/coredns/k8s_dns\<close>: the CoreDNS plugin that answers from the
  \<^verbatim>\<open>DNSRecord\<close> objects of the cluster. \<^verbatim>\<open>provider.go\<close> keeps the resource records of the
  active objects by their text (the three event handlers) and rebuilds the zones from them
  (\<^verbatim>\<open>sync\<close>); \<^verbatim>\<open>crds.go\<close> answers queries (\<^verbatim>\<open>ServeDNS\<close>) and reads its configuration
  (\<^verbatim>\<open>setup\<close>). The zone type of CoreDNS's file plugin is outside the sources: the record
  \<open>zoneLib\<close> holds its functions, and \<open>zone_laws\<close> what is documented of them.
\<close>

section \<open>Zones\<close>

record 'z zoneLib =
  newZone :: "string \<Rightarrow> 'z"
  zoneInsert :: "rr \<Rightarrow> 'z \<Rightarrow> go_error option \<times> 'z"
  zoneSOA :: "'z \<Rightarrow> rr option"
  setSOA :: "rr \<Rightarrow> 'z \<Rightarrow> 'z"
  zoneNS :: "'z \<Rightarrow> rr list"
  setNS :: "rr list \<Rightarrow> 'z \<Rightarrow> 'z"
  normalizeName :: "string \<Rightarrow> string"
  joinNames :: "string list \<Rightarrow> string"

text \<open>\<^verbatim>\<open>file.Zones\<close>: the zones by name, and the names in the order of their creation.\<close>

record 'z Zones =
  zs_Names :: "string list"
  zs_Z :: "(string, 'z) fmap"

record 'z k8sProvider =
  p_zones :: "'z Zones"
  p_records :: "(string, rr) fmap"
  p_externalAddress :: IP
  p_hostmaster :: string
  p_ttl :: u32
  p_apex :: string

definition defaultTTL :: u32 where "defaultTTL = 3600"
definition defaultHostmaster :: string where "defaultHostmaster = ''hostmaster''"
definition defaultApex :: string where "defaultApex = ''dns''"

definition noZones :: "'z Zones" where
  "noZones = \<lparr>zs_Names = [], zs_Z = fmempty\<rparr>"

text \<open>The struct literal of \<^verbatim>\<open>NewProvider\<close>.\<close>

definition providerInit :: "IP \<Rightarrow> 'z k8sProvider" where
  "providerInit ext =
     \<lparr>p_zones = noZones, p_records = fmempty, p_externalAddress = ext,
      p_hostmaster = defaultHostmaster, p_ttl = defaultTTL, p_apex = defaultApex\<rparr>"

text \<open>\<^verbatim>\<open>NewProvider\<close>, with the errors of \<^verbatim>\<open>config.GetConfig\<close> and of \<^verbatim>\<open>cache.New\<close>.\<close>

definition NewProvider :: "go_error option \<Rightarrow> go_error option \<Rightarrow> IP \<Rightarrow> go_error + 'z k8sProvider" where
  "NewProvider confErr cacheErr ext =
     (case confErr of
        Some e \<Rightarrow> Inl e
      | None \<Rightarrow> (case cacheErr of Some e \<Rightarrow> Inl e | None \<Rightarrow> Inr (providerInit ext)))"

text \<open>The zone a record belongs to: an error to report, an error only logged, or its name.\<close>

datatype zoneName = Malformed go_error | NoDomain | InZone string

definition zoneOf :: "ext \<Rightarrow> 'z zoneLib \<Rightarrow> rr \<Rightarrow> zoneName" where
  "zoneOf E L v =
     (let parts = splitDomainName E (h_Name (rrHeader v))
      in if length parts < 2 then Malformed (Errorf (''malformed name: '' @ h_Name (rrHeader v)))
         else case pslDomain E (strJoin parts ''.'') of
                Inl _ \<Rightarrow> NoDomain
              | Inr d \<Rightarrow> InZone (normalizeName L (dnsFqdn E d)))"

text \<open>
  One iteration of the first loop. The record is inserted into the zone as a pointer, and the
  library may lower-case its owner name in place; the entries of \<^verbatim>\<open>p.records\<close> are looked at by
  their keys and by the next \<^verbatim>\<open>sync\<close> only, whose zone names are normalised, so they stay values.
\<close>

definition insertRecord ::
  "ext \<Rightarrow> 'z zoneLib \<Rightarrow> rr \<Rightarrow> go_error list \<times> 'z Zones \<Rightarrow> go_error list \<times> 'z Zones" where
  "insertRecord E L v = (\<lambda>(merr, zs).
     case zoneOf E L v of
       Malformed e \<Rightarrow> (merr @ [e], zs)
     | NoDomain \<Rightarrow> (merr, zs)
     | InZone zone \<Rightarrow>
         (let zs1 = (case fmlookup (zs_Z zs) zone of
                       Some _ \<Rightarrow> zs
                     | None \<Rightarrow> \<lparr>zs_Names = zs_Names zs @ [zone],
                                zs_Z = fmupd zone (newZone L zone) (zs_Z zs)\<rparr>);
              z = (case fmlookup (zs_Z zs1) zone of Some z \<Rightarrow> z | None \<Rightarrow> newZone L zone)
          in case zoneInsert L v z of
               (None, z1) \<Rightarrow> (merr, zs1\<lparr>zs_Z := fmupd zone z1 (zs_Z zs1)\<rparr>)
             | (Some e, z1) \<Rightarrow> (merr @ [e], zs1\<lparr>zs_Z := fmupd zone z1 (zs_Z zs1)\<rparr>)))"

definition apexSOA :: "'z zoneLib \<Rightarrow> 'z k8sProvider \<Rightarrow> string \<Rightarrow> rr" where
  "apexSOA L p k =
     RR_SOA (mkHeader k TypeSOA ClassINET (p_ttl p)) (joinNames L [''ns0'', p_apex p, k])
       (joinNames L [p_hostmaster p, p_apex p, k]) 1499347823 7200 1800 86400 5"

text \<open>One iteration of the second loop: the apex of zone \<open>k\<close>.\<close>

definition completeZone :: "'z zoneLib \<Rightarrow> 'z k8sProvider \<Rightarrow> string \<Rightarrow> 'z \<Rightarrow> go_error option \<times> 'z" where
  "completeZone L p k z =
     (let ns = joinNames L [''ns0'', p_apex p, k];
          z1 = (if zoneSOA L z = None then setSOA L (apexSOA L p k) z else z)
      in if zoneNS L z1 \<noteq> [] then (None, z1)
         else
           (let z2 = setNS L (zoneNS L z1 @ [RR_NS (mkHeader k TypeNS ClassINET (p_ttl p)) ns]) z1
            in if p_externalAddress p = [] then (None, z2)
               else zoneInsert L (RR_A (mkHeader ns TypeA ClassINET (p_ttl p)) (p_externalAddress p)) z2))"

fun completeLoop ::
  "'z zoneLib \<Rightarrow> 'z k8sProvider \<Rightarrow> string list \<Rightarrow> (string, 'z) fmap \<Rightarrow> go_error option \<times> (string, 'z) fmap" where
  "completeLoop L p [] Z = (None, Z)"
| "completeLoop L p (k # ks) Z =
     (case fmlookup Z k of
        None \<Rightarrow> completeLoop L p ks Z
      | Some z \<Rightarrow>
          (case completeZone L p k z of
             (Some e, z1) \<Rightarrow> (Some e, fmupd k z1 Z)
           | (None, z1) \<Rightarrow> completeLoop L p ks (fmupd k z1 Z)))"

text \<open>
  A \<^verbatim>\<open>range\<close> over a map visits the keys in an order that the language leaves open: \<open>iter\<close>
  gives the order for the records, \<open>ziter\<close> that for the zones. The result is the
  reported errors (\<^verbatim>\<open>multierr\<close>), or the single error that ends the second loop.
\<close>

definition syncDefaults :: "'z k8sProvider \<Rightarrow> 'z k8sProvider" where
  "syncDefaults p =
     p\<lparr>p_hostmaster := (if p_hostmaster p = [] then defaultHostmaster else p_hostmaster p),
       p_ttl := (if p_ttl p = 0 then defaultTTL else p_ttl p),
       p_apex := (if p_apex p = [] then defaultApex else p_apex p)\<rparr>"

definition sync ::
  "ext \<Rightarrow> 'z zoneLib \<Rightarrow> ((string, rr) fmap \<Rightarrow> string list) \<Rightarrow> ((string, 'z) fmap \<Rightarrow> string list)
     \<Rightarrow> 'z k8sProvider \<Rightarrow> go_error list \<times> 'z k8sProvider" where
  "sync E L iter ziter p0 =
     (let p = syncDefaults p0;
          vs = List.map_filter (fmlookup (p_records p)) (iter (p_records p));
          (merr, zs) = fold (insertRecord E L) vs ([], noZones)
      in case completeLoop L p (ziter (zs_Z zs)) (zs_Z zs) of
           (Some e, Z) \<Rightarrow> ([e], p\<lparr>p_zones := zs\<lparr>zs_Z := Z\<rparr>\<rparr>)
         | (None, Z) \<Rightarrow> (merr, p\<lparr>p_zones := zs\<lparr>zs_Z := Z\<rparr>\<rparr>))"

section \<open>Event handlers\<close>

text \<open>What the informer delivers: a record or something else (nil, a tombstone).\<close>

datatype cacheObj = CachedRecord DNSRecord | OtherObj

definition k8s_makeRecord :: "ext \<Rightarrow> cacheObj \<Rightarrow> go_error + rr \<times> DNSRecord" where
  "k8s_makeRecord E ob =
     (case ob of
        OtherObj \<Rightarrow> Inl (Errorf ''obj is nil or is not a DNSRecord'')
      | CachedRecord r \<Rightarrow>
          (case ToRR E r of
             Inl e \<Rightarrow> Inl (Errorf (''record conversion: '' @ error_text e))
           | Inr rr \<Rightarrow> Inr (rr, r)))"

definition addFunc :: "ext \<Rightarrow> ('z k8sProvider \<Rightarrow> 'z k8sProvider) \<Rightarrow> cacheObj \<Rightarrow> 'z k8sProvider \<Rightarrow> 'z k8sProvider" where
  "addFunc E resync ob p =
     (case k8s_makeRecord E ob of
        Inl _ \<Rightarrow> p
      | Inr (rr, r) \<Rightarrow>
          if \<not> ptr_ToBoolD (sp_Active (r_Spec r)) True then p
          else resync (p\<lparr>p_records := fmupd (rrString E rr) rr (p_records p)\<rparr>))"

definition updateFunc ::
  "ext \<Rightarrow> ('z k8sProvider \<Rightarrow> 'z k8sProvider) \<Rightarrow> cacheObj \<Rightarrow> cacheObj \<Rightarrow> 'z k8sProvider \<Rightarrow> 'z k8sProvider" where
  "updateFunc E resync old new p =
     (case k8s_makeRecord E old of
        Inl _ \<Rightarrow> p
      | Inr (oldRR, _) \<Rightarrow>
          (case k8s_makeRecord E new of
             Inl _ \<Rightarrow> p
           | Inr (nextRR, r) \<Rightarrow>
               (let m = fmdrop (rrString E oldRR) (p_records p);
                    m1 = (if ptr_ToBoolD (sp_Active (r_Spec r)) True
                          then fmupd (rrString E nextRR) nextRR m else m)
                in resync (p\<lparr>p_records := m1\<rparr>))))"

definition deleteFunc :: "ext \<Rightarrow> ('z k8sProvider \<Rightarrow> 'z k8sProvider) \<Rightarrow> cacheObj \<Rightarrow> 'z k8sProvider \<Rightarrow> 'z k8sProvider" where
  "deleteFunc E resync ob p =
     (case k8s_makeRecord E ob of
        Inl _ \<Rightarrow> p
      | Inr (rr, _) \<Rightarrow> resync (p\<lparr>p_records := fmdrop (rrString E rr) (p_records p)\<rparr>))"

section \<open>Answering queries\<close>

text \<open>
  \<^verbatim>\<open>plugin.Zones.Matches\<close> (the longest listed zone a name lies in, or the empty string), and
  the zone's expiry flag and lookup, which yields the three sections and a result.
\<close>

datatype lookupResult = LSuccess | LNameError | LDelegation | LNoData | LServerFailure

record 'z answerLib =
  zonesMatch :: "string list \<Rightarrow> string \<Rightarrow> string"
  zoneExpired :: "'z \<Rightarrow> bool"
  zoneLookup :: "'z \<Rightarrow> string \<Rightarrow> rr list \<times> rr list \<times> rr list \<times> lookupResult"

record Reply =
  rp_Authoritative :: bool
  rp_Rcode :: nat
  rp_Answer :: "rr list"
  rp_Ns :: "rr list"
  rp_Extra :: "rr list"
  rp_Limited :: bool

definition RcodeSuccess :: nat where "RcodeSuccess = 0"
definition RcodeServerFailure :: nat where "RcodeServerFailure = 2"
definition RcodeNameError :: nat where "RcodeNameError = 3"

text \<open>The query goes to the next plugin, or a code is returned, perhaps after a reply was
  handed to the writer.\<close>

datatype serveResult = NextPlugin | Served nat "Reply option"

text \<open>
  The reply: \<^verbatim>\<open>SetReply\<close> and the sections, the switch over the result, which returns without a
  reply for a server failure, and \<^verbatim>\<open>Truncate\<close> for a client that did not come over TCP.
\<close>

definition makeReply :: "bool \<Rightarrow> rr list \<times> rr list \<times> rr list \<times> lookupResult \<Rightarrow> Reply option" where
  "makeReply tcp = (\<lambda>(answer, ns, extra, result).
     let m = \<lparr>rp_Authoritative = True, rp_Rcode = RcodeSuccess, rp_Answer = answer, rp_Ns = ns, rp_Extra = extra,
              rp_Limited = False\<rparr>;
         switched = (case result of
                       LSuccess \<Rightarrow> Some m
                     | LNoData \<Rightarrow> Some m
                     | LNameError \<Rightarrow> Some (m\<lparr>rp_Rcode := RcodeNameError\<rparr>)
                     | LDelegation \<Rightarrow> Some (m\<lparr>rp_Authoritative := False\<rparr>)
                     | LServerFailure \<Rightarrow> None)
     in map_option (\<lambda>m. if \<not> tcp then m\<lparr>rp_Limited := True\<rparr> else m) switched)"

text \<open>The end of \<^verbatim>\<open>ServeDNS\<close>, with the entry of the zone; \<open>writeFails\<close> is the outcome of \<^verbatim>\<open>WriteMsg\<close>.\<close>

definition serveZone :: "'z answerLib \<Rightarrow> 'z option \<Rightarrow> bool \<Rightarrow> (Reply \<Rightarrow> bool) \<Rightarrow> string \<Rightarrow> serveResult" where
  "serveZone A zone tcp writeFails qname =
     (case zone of
        None \<Rightarrow> Served RcodeServerFailure None
      | Some z \<Rightarrow>
          if zoneExpired A z then Served RcodeServerFailure None
          else (case makeReply tcp (zoneLookup A z qname) of
                  None \<Rightarrow> Served RcodeServerFailure None
                | Some m \<Rightarrow> if writeFails m then Served RcodeServerFailure (Some m)
                            else Served RcodeSuccess (Some m)))"

text \<open>
  \<^verbatim>\<open>ServeDNS\<close> reads the provider's zones twice, and \<^verbatim>\<open>sync\<close> may replace them in between:
  \<open>zones1\<close> gives the names, \<open>zones2\<close> the zone.
\<close>

definition ServeDNS ::
  "'z answerLib \<Rightarrow> 'z Zones \<Rightarrow> 'z Zones \<Rightarrow> bool \<Rightarrow> (Reply \<Rightarrow> bool) \<Rightarrow> string \<Rightarrow> serveResult" where
  "ServeDNS A zones1 zones2 tcp writeFails qname =
     (let zone = zonesMatch A (zs_Names zones1) qname
      in if zone = [] then NextPlugin
         else serveZone A (fmlookup (zs_Z zones2) zone) tcp writeFails qname)"

section \<open>Configuration\<close>

text \<open>
  \<^verbatim>\<open>setup\<close> walks the directive's block with the functions of \<^verbatim>\<open>caddy.Controller\<close>. The loop
  ends when there is no further line in the block, so it is a partial function.
\<close>

record 'c caddyController =
  ct_NextBlock :: "'c \<Rightarrow> bool \<times> 'c"
  ct_Val :: "'c \<Rightarrow> string"
  ct_RemainingArgs :: "'c \<Rightarrow> string list \<times> 'c"

datatype setupResult = ArgErr | UnknownProperty string | PluginErr go_error | External string

partial_function (option) setupLoop :: "'c caddyController \<Rightarrow> string \<Rightarrow> 'c \<Rightarrow> setupResult option" where
  "setupLoop C external c =
     (case ct_NextBlock C c of (again, c1) \<Rightarrow>
        if \<not> again then Some (External external)
        else if ct_Val C c1 = ''external'' then
          (case ct_RemainingArgs C c1 of (args, c2) \<Rightarrow>
             if length args = 0 then Some ArgErr else setupLoop C (hd args) c2)
        else Some (UnknownProperty (ct_Val C c1)))"

text \<open>
  \<^verbatim>\<open>setup\<close> and \<^verbatim>\<open>New\<close>: the provider that the plugin starts with, or the error; the text of a
  failure is that of \<^verbatim>\<open>plugin.Error\<close>.
\<close>

definition crdsSetup ::
  "go_error option \<Rightarrow> go_error option \<Rightarrow> 'c caddyController \<Rightarrow> 'c \<Rightarrow> (setupResult + 'z k8sProvider) option" where
  "crdsSetup confErr cacheErr C c =
     map_option (\<lambda>r.
       case r of
         External e \<Rightarrow>
           (case NewProvider confErr cacheErr (ParseIP e) of
              Inl err \<Rightarrow> Inl (PluginErr (Errorf (''plugin/k8s_dns: '' @ error_text err)))
            | Inr p \<Rightarrow> Inr p)
       | _ \<Rightarrow> Inl r)
       (setupLoop C [] c)"

section \<open>What the code relies on\<close>

text \<open>
  \<^item> \<open>zone_laws\<close>: the apex fields of a zone are independent of each other, a new zone has
    neither SOA nor NS records, and inserting an address record leaves both alone;
  \<^item> \<open>iterates\<close>: a \<^verbatim>\<open>range\<close> over a map visits every key once;
  \<^item> \<open>match_law\<close>: \<^verbatim>\<open>Matches\<close> finds a most specific one of the zones that a name lies in, and
    the empty string if it lies in none; \<open>sub\<close> is \<^verbatim>\<open>dns.IsSubDomain\<close>.
\<close>

definition match_law :: "(string \<Rightarrow> string \<Rightarrow> bool) \<Rightarrow> 'z answerLib \<Rightarrow> bool" where
  "match_law sub A \<longleftrightarrow>
     (\<forall>ns q. if \<exists>n \<in> set ns. sub n q
             then zonesMatch A ns q \<in> set ns \<and> sub (zonesMatch A ns q) q
                  \<and> (\<forall>n \<in> set ns. sub n q \<longrightarrow> length n \<le> length (zonesMatch A ns q))
             else zonesMatch A ns q = [])"

definition zone_laws :: "'z zoneLib \<Rightarrow> bool" where
  "zone_laws L \<longleftrightarrow>
     (\<forall>n. zoneSOA L (newZone L n) = None \<and> zoneNS L (newZone L n) = [])
     \<and> (\<forall>r z. zoneSOA L (setSOA L r z) = Some r \<and> zoneNS L (setSOA L r z) = zoneNS L z)
     \<and> (\<forall>l z. zoneNS L (setNS L l z) = l \<and> zoneSOA L (setNS L l z) = zoneSOA L z)
     \<and> (\<forall>h a z. zoneSOA L (snd (zoneInsert L (RR_A h a) z)) = zoneSOA L z
               \<and> zoneNS L (snd (zoneInsert L (RR_A h a) z)) = zoneNS L z)"

definition iterates :: "((string, 'a) fmap \<Rightarrow> string list) \<Rightarrow> bool" where
  "iterates it \<longleftrightarrow> (\<forall>m. distinct (it m) \<and> set (it m) = fmdom' m)"

section \<open>Lemmas on zones\<close>

definition zonesOk :: "'z Zones \<Rightarrow> bool" where
  "zonesOk zs \<longleftrightarrow> distinct (zs_Names zs) \<and> set (zs_Names zs) = fmdom' (zs_Z zs)"

definition zoneSet :: "ext \<Rightarrow> 'z zoneLib \<Rightarrow> rr set \<Rightarrow> string set" where
  "zoneSet E L vs = {k. \<exists>v \<in> vs. zoneOf E L v = InZone k}"

definition apexOk :: "'z zoneLib \<Rightarrow> 'z \<Rightarrow> bool" where
  "apexOk L z \<longleftrightarrow> zoneSOA L z \<noteq> None \<and> zoneNS L z \<noteq> []"

lemma insertRecord_zones:
  assumes "zonesOk zs"
  shows "zonesOk (snd (insertRecord E L v (merr, zs)))
     \<and> set (zs_Names (snd (insertRecord E L v (merr, zs)))) = set (zs_Names zs) \<union> zoneSet E L {v}"
proof (cases "zoneOf E L v")
  case (InZone k)
  show ?thesis
  proof (cases "fmlookup (zs_Z zs) k")
    case None
    then have "k \<notin> set (zs_Names zs)" using assms by (auto simp: zonesOk_def fmlookup_dom'_iff)
    with None InZone assms show ?thesis
      by (auto simp: insertRecord_def zonesOk_def zoneSet_def Let_def split: prod.splits option.splits)
  next
    case (Some z)
    then have "k \<in> set (zs_Names zs)" using assms by (auto simp: zonesOk_def fmlookup_dom'_iff)
    with Some InZone assms show ?thesis
      by (auto simp: insertRecord_def zonesOk_def zoneSet_def Let_def split: prod.splits option.splits)
  qed
qed (use assms in \<open>auto simp: insertRecord_def zoneSet_def\<close>)

lemma fold_insertRecord:
  assumes "zonesOk zs"
  shows "zonesOk (snd (fold (insertRecord E L) vs (merr, zs)))
     \<and> set (zs_Names (snd (fold (insertRecord E L) vs (merr, zs)))) = set (zs_Names zs) \<union> zoneSet E L (set vs)"
  using assms
proof (induction vs arbitrary: merr zs)
  case (Cons v vs)
  obtain m z where i: "insertRecord E L v (merr, zs) = (m, z)" by fastforce
  with insertRecord_zones [OF Cons.prems, of E L v merr] have "zonesOk z"
    "set (zs_Names z) = set (zs_Names zs) \<union> zoneSet E L {v}" by simp_all
  with Cons.IH [of z m] i show ?case by (auto simp: zoneSet_def)
qed (simp add: zoneSet_def)

lemma completeZone_apex:
  assumes "zone_laws L"
  shows "apexOk L (snd (completeZone L p k z))"
  using assms unfolding completeZone_def Let_def apexOk_def zone_laws_def by auto

lemma completeLoop_dom: "fmdom' (snd (completeLoop L p ks Z)) = fmdom' Z"
  by (induction ks arbitrary: Z) (auto split: option.splits prod.splits simp: fmlookup_dom'_iff)

lemma completeLoop_keep:
  "k \<notin> set ks \<Longrightarrow> fmlookup (snd (completeLoop L p ks Z)) k = fmlookup Z k"
  by (induction ks arbitrary: Z) (auto split: option.splits prod.splits)

lemma completeLoop_apex:
  assumes "zone_laws L" and "distinct ks" and "fst (completeLoop L p ks Z) = None" and "k \<in> set ks"
    and "fmlookup (snd (completeLoop L p ks Z)) k = Some z"
  shows "apexOk L z"
  using assms(2-5)
proof (induction ks arbitrary: Z)
  case (Cons k1 ks)
  show ?case
  proof (cases "fmlookup Z k1")
    case None
    then show ?thesis
      using Cons completeLoop_keep [of k1 ks L p Z] by (cases "k = k1") auto
  next
    case (Some z1)
    obtain e z2 where c: "completeZone L p k1 z1 = (e, z2)" by fastforce
    then have "e = None" using Cons.prems(2) Some by (cases e) auto
    then show ?thesis
      using Cons c Some completeLoop_keep [of k1 ks L p "fmupd k1 z2 Z"] completeZone_apex [OF assms(1), of p k1 z1]
      by (cases "k = k1") auto
  qed
qed simp

lemma completeLoop_ok:
  assumes "p_externalAddress p = [] \<or> (\<forall>h a z. fst (zoneInsert L (RR_A h a) z) = None)"
  shows "fst (completeLoop L p ks Z) = None"
proof -
  have "fst (completeZone L p k z) = None" for k z
    using assms by (auto simp: completeZone_def Let_def)
  then show ?thesis
    by (induction ks arbitrary: Z) (auto split: option.splits prod.splits, metis fst_conv option.distinct(1))
qed

lemma syncDefaults_sel [simp]:
  "p_records (syncDefaults p) = p_records p" "p_externalAddress (syncDefaults p) = p_externalAddress p"
  by (simp_all add: syncDefaults_def)

lemma sync_records [simp]:
  "p_records (snd (sync E L iter ziter p)) = p_records p"
  "p_externalAddress (snd (sync E L iter ziter p)) = p_externalAddress p"
  by (auto simp: sync_def Let_def split: prod.splits option.splits)

lemma ran_iter:
  assumes "iterates iter"
  shows "set (List.map_filter (fmlookup m) (iter m)) = fmran' m"
  using assms by (force simp: iterates_def List.map_filter_def fmlookup_ran'_iff fmlookup_dom'_iff)

lemma sync_zones:
  assumes "zone_laws L" and "iterates iter" and "iterates ziter"
  shows "zonesOk (p_zones (snd (sync E L iter ziter p)))"
    and "set (zs_Names (p_zones (snd (sync E L iter ziter p)))) = zoneSet E L (fmran' (p_records p))"
    and "p_externalAddress p = [] \<or> (\<forall>h a z. fst (zoneInsert L (RR_A h a) z) = None) \<Longrightarrow>
      fmlookup (zs_Z (p_zones (snd (sync E L iter ziter p)))) k = Some z \<Longrightarrow> apexOk L z"
proof -
  let ?vs = "List.map_filter (fmlookup (p_records p)) (iter (p_records p))"
  obtain merr zs where f: "fold (insertRecord E L) ?vs ([], noZones) = (merr, zs)" by fastforce
  have "zonesOk (noZones :: 'a Zones)" by (simp add: zonesOk_def noZones_def)
  from fold_insertRecord [OF this, of E L ?vs "[]"] f ran_iter [OF assms(2)]
  have zs: "zonesOk zs" "set (zs_Names zs) = zoneSet E L (fmran' (p_records p))"
    by (simp_all add: noZones_def)
  obtain e Z where c: "completeLoop L (syncDefaults p) (ziter (zs_Z zs)) (zs_Z zs) = (e, Z)" by fastforce
  then have dom: "fmdom' Z = fmdom' (zs_Z zs)" by (metis completeLoop_dom snd_conv)
  have z: "p_zones (snd (sync E L iter ziter p)) = zs\<lparr>zs_Z := Z\<rparr>"
    using f c by (cases e) (simp_all add: sync_def Let_def)
  show "zonesOk (p_zones (snd (sync E L iter ziter p)))"
    "set (zs_Names (p_zones (snd (sync E L iter ziter p)))) = zoneSet E L (fmran' (p_records p))"
    using zs dom by (simp_all add: z zonesOk_def)
  assume a: "p_externalAddress p = [] \<or> (\<forall>h a z. fst (zoneInsert L (RR_A h a) z) = None)"
    and k: "fmlookup (zs_Z (p_zones (snd (sync E L iter ziter p)))) k = Some z"
  show "apexOk L z"
  proof (rule completeLoop_apex [OF assms(1)])
    show "k \<in> set (ziter (zs_Z zs))"
      using k dom assms(3) by (auto simp: z iterates_def fmlookup_dom'_iff)
    show "distinct (ziter (zs_Z zs))" using assms(3) by (simp add: iterates_def)
    show "fst (completeLoop L (syncDefaults p) (ziter (zs_Z zs)) (zs_Z zs)) = None"
      by (rule completeLoop_ok) (use a in simp)
    show "fmlookup (snd (completeLoop L (syncDefaults p) (ziter (zs_Z zs)) (zs_Z zs))) k = Some z"
      using k c by (simp add: z)
  qed
qed

text \<open>
  What a zone is made of: the records of the map that belong to it, in the order in which they
  are visited, inserted into a new zone whose apex is then completed.
\<close>

definition zoneRecords ::
  "ext \<Rightarrow> 'z zoneLib \<Rightarrow> ((string, rr) fmap \<Rightarrow> string list) \<Rightarrow> (string, rr) fmap \<Rightarrow> string \<Rightarrow> rr list" where
  "zoneRecords E L iter m k =
     filter (\<lambda>v. zoneOf E L v = InZone k) (List.map_filter (fmlookup m) (iter m))"

definition insertAll :: "'z zoneLib \<Rightarrow> rr list \<Rightarrow> 'z \<Rightarrow> 'z" where
  "insertAll L vs z = fold (\<lambda>v z. snd (zoneInsert L v z)) vs z"

definition zoneBuilt :: "'z zoneLib \<Rightarrow> 'z k8sProvider \<Rightarrow> string \<Rightarrow> rr list \<Rightarrow> 'z" where
  "zoneBuilt L p k vs = snd (completeZone L p k (insertAll L vs (newZone L k)))"

lemma insertRecord_content:
  "fmlookup (zs_Z (snd (insertRecord E L v (merr, zs)))) k =
     (if zoneOf E L v = InZone k
      then Some (snd (zoneInsert L v (case fmlookup (zs_Z zs) k of Some z \<Rightarrow> z | None \<Rightarrow> newZone L k)))
      else fmlookup (zs_Z zs) k)"
  by (auto simp: insertRecord_def Let_def split: zoneName.splits option.splits prod.splits)

lemma fold_insertRecord_content:
  "fmlookup (zs_Z (snd (fold (insertRecord E L) vs (merr, zs)))) k =
     (let ws = filter (\<lambda>v. zoneOf E L v = InZone k) vs
      in if ws = [] then fmlookup (zs_Z zs) k
         else Some (insertAll L ws (case fmlookup (zs_Z zs) k of Some z \<Rightarrow> z | None \<Rightarrow> newZone L k)))"
proof (induction vs arbitrary: merr zs)
  case (Cons v vs)
  obtain m z where i: "insertRecord E L v (merr, zs) = (m, z)" by fastforce
  have "fmlookup (zs_Z z) k = (if zoneOf E L v = InZone k
      then Some (snd (zoneInsert L v (case fmlookup (zs_Z zs) k of Some z \<Rightarrow> z | None \<Rightarrow> newZone L k)))
      else fmlookup (zs_Z zs) k)"
    using insertRecord_content [of E L v merr zs k] i by simp
  with Cons.IH [of m z] i show ?case by (simp add: insertAll_def Let_def)
qed (simp add: Let_def)

lemma completeLoop_content:
  assumes "fst (completeLoop L p ks Z) = None" and "distinct ks" and "k \<in> set ks"
  shows "fmlookup (snd (completeLoop L p ks Z)) k = map_option (\<lambda>z. snd (completeZone L p k z)) (fmlookup Z k)"
  using assms
proof (induction ks arbitrary: Z)
  case (Cons k1 ks)
  show ?case
  proof (cases "fmlookup Z k1")
    case None
    then show ?thesis using Cons completeLoop_keep [of k1 ks L p Z] by (cases "k = k1") auto
  next
    case (Some z1)
    obtain e z2 where c: "completeZone L p k1 z1 = (e, z2)" by fastforce
    then have "e = None" using Cons.prems(1) Some by (cases e) auto
    then show ?thesis
      using Cons c Some completeLoop_keep [of k1 ks L p "fmupd k1 z2 Z"] by (cases "k = k1") auto
  qed
qed simp

text \<open>Every zone is made of exactly its records.\<close>

definition zonesMade :: "ext \<Rightarrow> 'z zoneLib \<Rightarrow> ((string, rr) fmap \<Rightarrow> string list) \<Rightarrow> 'z k8sProvider \<Rightarrow> bool" where
  "zonesMade E L iter p \<longleftrightarrow>
     (\<forall>k. fmlookup (zs_Z (p_zones p)) k =
        (let vs = zoneRecords E L iter (p_records p) k in if vs = [] then None else Some (zoneBuilt L p k vs)))"

lemma sync_content:
  assumes "iterates ziter" and "p_externalAddress p = [] \<or> (\<forall>h a z. fst (zoneInsert L (RR_A h a) z) = None)"
  shows "zonesMade E L iter (snd (sync E L iter ziter p))"
proof -
  let ?vs = "List.map_filter (fmlookup (p_records p)) (iter (p_records p))"
  obtain merr zs where f: "fold (insertRecord E L) ?vs ([], noZones) = (merr, zs)" by fastforce
  have zs: "fmlookup (zs_Z zs) k = (let ws = zoneRecords E L iter (p_records p) k
      in if ws = [] then None else Some (insertAll L ws (newZone L k)))" for k
    using fold_insertRecord_content [of E L ?vs "[]" noZones k] unfolding f by (simp add: zoneRecords_def noZones_def Let_def)
  let ?p = "syncDefaults p"
  have e: "fst (completeLoop L ?p (ziter (zs_Z zs)) (zs_Z zs)) = None"
    by (rule completeLoop_ok) (use assms(2) in simp)
  then obtain Z where c: "completeLoop L ?p (ziter (zs_Z zs)) (zs_Z zs) = (None, Z)" by (metis prod.collapse)
  have p': "snd (sync E L iter ziter p) = ?p\<lparr>p_zones := zs\<lparr>zs_Z := Z\<rparr>\<rparr>" using f c by (simp add: sync_def Let_def)
  have it: "distinct (ziter (zs_Z zs))" "set (ziter (zs_Z zs)) = fmdom' (zs_Z zs)"
    using assms(1) by (simp_all add: iterates_def)
  have Z: "fmlookup Z k = map_option (\<lambda>z. snd (completeZone L ?p k z)) (fmlookup (zs_Z zs) k)" for k
  proof (cases "k \<in> set (ziter (zs_Z zs))")
    case True
    then show ?thesis using completeLoop_content [OF e it(1) True] c by simp
  next
    case False
    then show ?thesis using completeLoop_keep [OF False, of L ?p "zs_Z zs"] c it(2) by (auto simp: fmlookup_dom'_iff)
  qed
  have "completeZone L (?p\<lparr>p_zones := zs\<lparr>zs_Z := Z\<rparr>\<rparr>) = completeZone L ?p"
    by (intro ext) (simp add: completeZone_def apexSOA_def Let_def)
  then show ?thesis by (simp add: zonesMade_def p' Z zs zoneBuilt_def Let_def)
qed

section \<open>The informer\<close>

text \<open>
  The cache delivers the changes of the set of objects one at a time. A step of the machine
  is one change, made to the set and handed to the handlers.
\<close>

definition activeRecord :: "DNSRecord \<Rightarrow> bool" where
  "activeRecord r \<longleftrightarrow> ptr_ToBoolD (sp_Active (r_Spec r)) True"

text \<open>Every object converts, and no two objects have the same text.\<close>

definition plain :: "ext \<Rightarrow> DNSRecord set \<Rightarrow> bool" where
  "plain E S \<longleftrightarrow>
     (\<forall>r \<in> S. \<exists>rr. ToRR E r = Inr rr)
     \<and> (\<forall>r \<in> S. \<forall>s \<in> S. \<forall>a b. ToRR E r = Inr a \<and> ToRR E s = Inr b \<and> rrString E a = rrString E b \<longrightarrow> r = s)"

inductive informer ::
  "ext \<Rightarrow> ('z k8sProvider \<Rightarrow> 'z k8sProvider) \<Rightarrow> DNSRecord set \<times> 'z k8sProvider \<Rightarrow> DNSRecord set \<times> 'z k8sProvider \<Rightarrow> bool"
  for E :: ext and resync :: "'z k8sProvider \<Rightarrow> 'z k8sProvider" where
  Added: "r \<notin> S \<Longrightarrow> plain E (insert r S) \<Longrightarrow>
     informer E resync (S, p) (insert r S, addFunc E resync (CachedRecord r) p)"
| Updated: "r \<in> S \<Longrightarrow> s \<notin> S - {r} \<Longrightarrow> plain E (insert s (S - {r})) \<Longrightarrow>
     informer E resync (S, p) (insert s (S - {r}), updateFunc E resync (CachedRecord r) (CachedRecord s) p)"
| Deleted: "r \<in> S \<Longrightarrow>
     informer E resync (S, p) (S - {r}, deleteFunc E resync (CachedRecord r) p)"

text \<open>The records are exactly those of the active objects, under their text.\<close>

definition serves :: "ext \<Rightarrow> DNSRecord set \<Rightarrow> (string, rr) fmap \<Rightarrow> bool" where
  "serves E S m \<longleftrightarrow>
     (\<forall>t rr. fmlookup m t = Some rr \<longleftrightarrow>
        (\<exists>r \<in> S. activeRecord r \<and> ToRR E r = Inr rr \<and> rrString E rr = t))"

lemma makeRecord_plain:
  "ToRR E r = Inr rr \<Longrightarrow> k8s_makeRecord E (CachedRecord r) = Inr (rr, r)"
  by (simp add: k8s_makeRecord_def)

lemma serves_add:
  assumes "serves E S m" and "plain E (insert r S)" and "r \<notin> S" and "ToRR E r = Inr rr"
  shows "serves E (insert r S) (if activeRecord r then fmupd (rrString E rr) rr m else m)"
proof -
  have u: "s = r" if "s \<in> S" "ToRR E s = Inr rr'" "rrString E rr' = rrString E rr" for s rr'
    using assms(2,4) that unfolding plain_def by blast
  show ?thesis
    using assms(1,3,4) u unfolding serves_def by (auto split: if_splits)
qed

lemma serves_drop:
  assumes "serves E S m" and "plain E S" and "r \<in> S" and "ToRR E r = Inr rr"
  shows "serves E (S - {r}) (fmdrop (rrString E rr) m)"
  unfolding serves_def
proof (intro allI)
  fix t rr'
  have u: "s = r" if "s \<in> S" "ToRR E s = Inr rr'" "rrString E rr' = rrString E rr" for s
    using assms(2-4) that unfolding plain_def by blast
  have v: "fmlookup m t = Some rr' \<longleftrightarrow> (\<exists>s \<in> S. activeRecord s \<and> ToRR E s = Inr rr' \<and> rrString E rr' = t)"
    using assms(1) unfolding serves_def by blast
  show "fmlookup (fmdrop (rrString E rr) m) t = Some rr' \<longleftrightarrow>
      (\<exists>s \<in> S - {r}. activeRecord s \<and> ToRR E s = Inr rr' \<and> rrString E rr' = t)"
    using u v assms(4) by (cases "t = rrString E rr") auto
qed

lemma plain_subset: "plain E S \<Longrightarrow> T \<subseteq> S \<Longrightarrow> plain E T"
  unfolding plain_def by blast

lemma informer_serves:
  assumes "informer E resync (S, p) (S', p')" and "plain E S" and "serves E S (p_records p)"
    and "\<And>p. p_records (resync p) = p_records p"
  shows "plain E S' \<and> serves E S' (p_records p')"
  using assms(1)
proof (cases rule: informer.cases)
  case (Added r)
  then obtain rr where rr: "ToRR E r = Inr rr" unfolding plain_def by blast
  then have "p_records p' = (if activeRecord r then fmupd (rrString E rr) rr (p_records p) else p_records p)"
    using Added assms(4) by (simp add: addFunc_def makeRecord_plain activeRecord_def)
  then show ?thesis using serves_add [OF assms(3) _ _ rr] Added by simp
next
  case (Updated r s)
  obtain rr where rr: "ToRR E r = Inr rr" using Updated assms(2) unfolding plain_def by blast
  obtain ss where ss: "ToRR E s = Inr ss" using Updated unfolding plain_def by blast
  have "p_records p' = (if activeRecord s then fmupd (rrString E ss) ss (fmdrop (rrString E rr) (p_records p))
      else fmdrop (rrString E rr) (p_records p))"
    using Updated rr ss assms(4) by (simp add: updateFunc_def makeRecord_plain activeRecord_def Let_def)
  then show ?thesis
    using serves_add [OF serves_drop [OF assms(3,2) _ rr] _ _ ss] Updated by simp
next
  case (Deleted r)
  then obtain rr where rr: "ToRR E r = Inr rr" using assms(2) unfolding plain_def by blast
  then have "p_records p' = fmdrop (rrString E rr) (p_records p)"
    using Deleted assms(4) by (simp add: deleteFunc_def makeRecord_plain)
  then show ?thesis
    using serves_drop [OF assms(3,2) _ rr] plain_subset [OF assms(2)] Deleted by auto
qed

interpretation held: invariant_machine "informer E (\<lambda>p. snd (sync E L iter ziter p))"
    "\<lambda>x. x = ({}, providerInit ip)" "\<lambda>(S, p). plain E S \<and> serves E S (p_records p)"
    for E L iter ziter ip
proof
  show "case s of (S, p) \<Rightarrow> plain E S \<and> serves E S (p_records p)" if "s = ({}, providerInit ip)"
    for s :: "DNSRecord set \<times> 'c k8sProvider"
    using that by (simp add: plain_def serves_def providerInit_def)
qed (auto dest: informer_serves)

text \<open>The listed zones are those of the records; every handler keeps this if \<^verbatim>\<open>sync\<close> does.\<close>

definition zonesFollow :: "ext \<Rightarrow> 'z zoneLib \<Rightarrow> 'z k8sProvider \<Rightarrow> bool" where
  "zonesFollow E L p \<longleftrightarrow> set (zs_Names (p_zones p)) = zoneSet E L (fmran' (p_records p))"

lemma informer_keeps:
  assumes "informer E resync x y" and "\<And>m p. I p \<Longrightarrow> I (resync (p\<lparr>p_records := m\<rparr>))" and "I (snd x)"
  shows "I (snd y)"
proof -
  have "I (addFunc E resync ob p)" "I (deleteFunc E resync ob p)" "I (updateFunc E resync ob ob' p)" if "I p" for ob ob' p
    using that assms(2)
    by (simp_all add: addFunc_def deleteFunc_def updateFunc_def Let_def split: sum.splits prod.splits)
  with assms(1,3) show ?thesis by (cases rule: informer.cases) simp_all
qed

interpretation listed: invariant_machine "informer E (\<lambda>p. snd (sync E L iter ziter p))"
    "\<lambda>x. x = ({}, providerInit ip)"
    "\<lambda>(S, p). zone_laws L \<and> iterates iter \<and> iterates ziter \<longrightarrow> zonesFollow E L p"
    for E L iter ziter ip
proof
  show "case s of (S, p) \<Rightarrow> zone_laws L \<and> iterates iter \<and> iterates ziter \<longrightarrow> zonesFollow E L p"
    if "s = ({}, providerInit ip)" for s :: "DNSRecord set \<times> 'a k8sProvider"
    using that by (auto simp: zonesFollow_def providerInit_def noZones_def zoneSet_def fmlookup_ran'_iff)
next
  fix s s' :: "DNSRecord set \<times> 'a k8sProvider"
  assume t: "informer E (\<lambda>p. snd (sync E L iter ziter p)) s s'"
    and I: "case s of (S, p) \<Rightarrow> zone_laws L \<and> iterates iter \<and> iterates ziter \<longrightarrow> zonesFollow E L p"
  show "case s' of (S, p) \<Rightarrow> zone_laws L \<and> iterates iter \<and> iterates ziter \<longrightarrow> zonesFollow E L p"
    using informer_keeps [OF t, of "zonesFollow E L"] I sync_zones(2) [of L iter ziter E]
    by (auto simp: zonesFollow_def split: prod.splits)
qed

lemma iterates_empty: "iterates iter \<Longrightarrow> iter fmempty = []"
  unfolding iterates_def by (metis fmdom'_empty set_empty)

text \<open>The zones are made of the records held, in every state that the informer reaches.\<close>

interpretation made: invariant_machine "informer E (\<lambda>p. snd (sync E L iter ziter p))"
    "\<lambda>x. x = ({}, providerInit ip)"
    "\<lambda>(S, p). iterates iter \<and> iterates ziter \<and> (ip = [] \<or> (\<forall>h a z. fst (zoneInsert L (RR_A h a) z) = None)) \<longrightarrow>
       p_externalAddress p = ip \<and> zonesMade E L iter p"
    for E L iter ziter ip
proof
  show "case s of (S, p) \<Rightarrow> iterates iter \<and> iterates ziter \<and> (ip = [] \<or> (\<forall>h a z. fst (zoneInsert L (RR_A h a) z) = None)) \<longrightarrow>
       p_externalAddress p = ip \<and> zonesMade E L iter p"
    if "s = ({}, providerInit ip)" for s :: "DNSRecord set \<times> 'a k8sProvider"
    using that by (auto simp: zonesMade_def zoneRecords_def providerInit_def noZones_def List.map_filter_def iterates_empty)
next
  fix s s' :: "DNSRecord set \<times> 'a k8sProvider"
  assume t: "informer E (\<lambda>p. snd (sync E L iter ziter p)) s s'"
    and I: "case s of (S, p) \<Rightarrow> iterates iter \<and> iterates ziter \<and> (ip = [] \<or> (\<forall>h a z. fst (zoneInsert L (RR_A h a) z) = None)) \<longrightarrow>
       p_externalAddress p = ip \<and> zonesMade E L iter p"
  show "case s' of (S, p) \<Rightarrow> iterates iter \<and> iterates ziter \<and> (ip = [] \<or> (\<forall>h a z. fst (zoneInsert L (RR_A h a) z) = None)) \<longrightarrow>
       p_externalAddress p = ip \<and> zonesMade E L iter p"
    using informer_keeps [OF t, of "\<lambda>p. p_externalAddress p = ip \<and> zonesMade E L iter p"] I sync_content [of ziter _ L E iter]
    by (auto split: prod.splits)
qed

text \<open>The zones of the active objects, and the records of those in one zone.\<close>

definition activeRRs :: "ext \<Rightarrow> DNSRecord set \<Rightarrow> rr set" where
  "activeRRs E S = {rr. \<exists>r \<in> S. activeRecord r \<and> ToRR E r = Inr rr}"

lemma serves_ran: "serves E S m \<Longrightarrow> fmran' m = activeRRs E S"
  unfolding serves_def activeRRs_def set_eq_iff fmlookup_ran'_iff mem_Collect_eq by blast

lemma map_filter_distinct:
  assumes "distinct xs" and "\<And>x y v. f x = Some v \<Longrightarrow> f y = Some v \<Longrightarrow> x = y"
  shows "distinct (List.map_filter f xs)"
proof -
  have "inj_on (the \<circ> f) (set (filter (\<lambda>x. f x \<noteq> None) xs))"
  proof (rule inj_onI)
    fix x y
    assume "x \<in> set (filter (\<lambda>x. f x \<noteq> None) xs)" "y \<in> set (filter (\<lambda>x. f x \<noteq> None) xs)" "(the \<circ> f) x = (the \<circ> f) y"
    then have "f x = Some (the (f x))" "f y = Some (the (f x))" by auto
    then show "x = y" by (rule assms(2))
  qed
  then show ?thesis using assms(1) by (simp only: List.map_filter_def distinct_map distinct_filter)
qed

lemma zoneRecords_active:
  assumes "serves E S m" and "iterates iter"
  shows "distinct (zoneRecords E L iter m k)"
    and "set (zoneRecords E L iter m k) = {v \<in> activeRRs E S. zoneOf E L v = InZone k}"
proof -
  have "x = y" if "fmlookup m x = Some v" "fmlookup m y = Some v" for x y v
    using assms(1) that unfolding serves_def by metis
  then have "distinct (List.map_filter (fmlookup m) (iter m))"
    using map_filter_distinct [of "iter m" "fmlookup m"] assms(2) by (simp add: iterates_def)
  then show "distinct (zoneRecords E L iter m k)" by (simp add: zoneRecords_def)
  show "set (zoneRecords E L iter m k) = {v \<in> activeRRs E S. zoneOf E L v = InZone k}"
    using ran_iter [OF assms(2), of m] serves_ran [OF assms(1)] by (auto simp: zoneRecords_def)
qed

section \<open>A block as a list\<close>

text \<open>
  What a controller yields from a state on when the block is read line by line: the words at
  which \<^verbatim>\<open>NextBlock\<close> stops, with the arguments that follow them.
\<close>

inductive reads :: "'c caddyController \<Rightarrow> 'c \<Rightarrow> (string \<times> string list) list \<Rightarrow> bool"
  for C :: "'c caddyController" where
  no_line: "ct_NextBlock C c = (False, c1) \<Longrightarrow> reads C c []"
| line: "ct_NextBlock C c = (True, c1) \<Longrightarrow> ct_RemainingArgs C c1 = (args, c2) \<Longrightarrow> reads C c2 ls \<Longrightarrow>
     reads C c ((ct_Val C c1, args) # ls)"

text \<open>The first line that is not a proper \<^verbatim>\<open>external\<close> decides; else the last address wins.\<close>

definition blockMeaning :: "string \<Rightarrow> (string \<times> string list) list \<Rightarrow> setupResult" where
  "blockMeaning e ls =
     (case find (\<lambda>l. fst l \<noteq> ''external'' \<or> snd l = []) ls of
        Some l \<Rightarrow> if fst l = ''external'' then ArgErr else UnknownProperty (fst l)
      | None \<Rightarrow> External (if ls = [] then e else hd (snd (last ls))))"

lemma setupLoop_reads: "reads C c ls \<Longrightarrow> setupLoop C e c = Some (blockMeaning e ls)"
proof (induction arbitrary: e rule: reads.induct)
  case (no_line c c1)
  then show ?case by (subst setupLoop.simps) (simp add: blockMeaning_def)
next
  case (line c c1 args c2 ls)
  show ?case
  proof (cases "ct_Val C c1 = ''external'' \<and> args \<noteq> []")
    case True
    then show ?thesis
      using line by (subst setupLoop.simps) (simp add: blockMeaning_def split: option.splits)
  next
    case False
    then show ?thesis
      using line(1,2) by (subst setupLoop.simps) (auto simp: blockMeaning_def)
  qed
qed

section \<open>Example objects\<close>

text \<open>A zone as its SOA, its NS records and the records inserted.\<close>

definition exZones :: "(rr option \<times> rr list \<times> rr list) zoneLib" where
  "exZones =
     \<lparr>newZone = (\<lambda>n. (None, [], [])), zoneInsert = (\<lambda>r (s, n, l). (None, (s, n, l @ [r]))),
      zoneSOA = fst, setSOA = (\<lambda>r (s, n, l). (Some r, n, l)),
      zoneNS = (\<lambda>z. fst (snd z)), setNS = (\<lambda>x (s, n, l). (s, x, l)),
      normalizeName = (\<lambda>s. s), joinNames = (\<lambda>ns. strJoin ns ''.'')\<rparr>"

lemma exZones_laws: "zone_laws exZones"
  by (auto simp: zone_laws_def exZones_def)

text \<open>An iteration order: the keys, sorted by the lexicographic order of their codes.\<close>

definition exIter :: "(string, 'a) fmap \<Rightarrow> string list" where
  "exIter m = sorted_list_of_set (fmdom' m)"

lemma exIter_iterates: "iterates exIter"
  by (simp add: iterates_def exIter_def)

section \<open>Properties\<close>

text \<open>
  C10. After a \<^verbatim>\<open>sync\<close>, whatever the order in which the maps are visited, the zones are
  exactly the registrable domains of the records, each listed once among the names, and
  every zone has a SOA and at least one NS record, so that the server can answer for it. (For
  the last part, inserting the address of the name server must not fail.)
\<close>

theorem sync_complete:
  assumes "zone_laws L" and "iterates iter" and "iterates ziter"
    and "p_externalAddress p = [] \<or> (\<forall>h a z. fst (zoneInsert L (RR_A h a) z) = None)"
    and "sync E L iter ziter p = (errs, p')"
  shows "distinct (zs_Names (p_zones p')) \<and> set (zs_Names (p_zones p')) = fmdom' (zs_Z (p_zones p'))
    \<and> set (zs_Names (p_zones p')) = {k. \<exists>v \<in> fmran' (p_records p). zoneOf E L v = InZone k}
    \<and> (\<forall>k z. fmlookup (zs_Z (p_zones p')) k = Some z \<longrightarrow> zoneSOA L z \<noteq> None \<and> zoneNS L z \<noteq> [])"
proof -
  have p': "p' = snd (sync E L iter ziter p)" using assms(5) by simp
  show ?thesis
    using sync_zones(1,2) [OF assms(1-3), of E p] sync_zones(3) [OF assms(1-3), of p E]  assms(4)
    unfolding p' zonesOk_def zoneSet_def apexOk_def by blast
qed

definition exProviderState :: "(rr option \<times> rr list \<times> rr list) k8sProvider" where
  "exProviderState = (providerInit [])\<lparr>p_records := fmupd ''ns'' exNS fmempty\<rparr>"

lemma exNS_zone: "zoneOf exExt exZones exNS = InZone ''example.org.''"
  by (simp add: zoneOf_def exNS_def trimSuffix_def hasSuffix_def exPsl_def exDomain_def exFqdn_def
      exZones_def Let_def)

theorem sync_complete_witness:
  "\<exists>errs p'. sync exExt exZones exIter exIter exProviderState = (errs, p')
     \<and> ''example.org.'' \<in> set (zs_Names (p_zones p'))"
proof -
  obtain errs p' where r: "sync exExt exZones exIter exIter exProviderState = (errs, p')" by fastforce
  have x: "p_externalAddress exProviderState = [] \<or> (\<forall>h a z. fst (zoneInsert exZones (RR_A h a) z) = None)"
    by (simp add: exProviderState_def providerInit_def)
  have "exNS \<in> fmran' (p_records exProviderState)"
    by (simp add: exProviderState_def fmlookup_ran'_iff)
  then show ?thesis
    using sync_complete [OF exZones_laws exIter_iterates exIter_iterates x r] r exNS_zone by blast
qed

text \<open>
  C5. The plugin follows the cluster. Start with no objects and let the informer deliver any
  sequence of additions, updates and deletions, between states in which every object
  converts and no two objects have the same text: the records held are exactly those of the
  objects that are active, and the zones listed are exactly theirs.
\<close>

theorem informer_refines:
  assumes "zone_laws L" and "iterates iter" and "iterates ziter"
    and "(informer E (\<lambda>p. snd (sync E L iter ziter p)))\<^sup>*\<^sup>* ({}, providerInit ip) (S, p)"
  shows "(\<forall>t rr. fmlookup (p_records p) t = Some rr \<longleftrightarrow>
            (\<exists>r \<in> S. activeRecord r \<and> ToRR E r = Inr rr \<and> rrString E rr = t))
    \<and> set (zs_Names (p_zones p)) = {k. \<exists>v \<in> fmran' (p_records p). zoneOf E L v = InZone k}"
proof -
  have "serves E S (p_records p)" using held.inv_reach [OF assms(4) refl] by simp
  moreover have "zonesFollow E L p" using listed.inv_reach [OF assms(4) refl] assms(1-3) by simp
  ultimately show ?thesis by (simp add: serves_def zonesFollow_def zoneSet_def)
qed

theorem informer_refines_witness:
  "\<exists>p. (informer exExt (\<lambda>p. snd (sync exExt exZones exIter exIter p)))\<^sup>*\<^sup>* ({}, providerInit []) ({exValid}, p)
     \<and> (\<exists>rr. fmlookup (p_records p) (exString rr) = Some rr)"
proof -
  let ?sync = "\<lambda>p. snd (sync exExt exZones exIter exIter p)"
  obtain rr where t: "ToRR exExt exValid = Inr rr"
    by (simp add: ToRR_def specToRR_def exValid_def go_eval)
  then have "plain exExt {exValid}" by (auto simp: plain_def)
  then have "informer exExt ?sync ({}, providerInit []) ({exValid}, addFunc exExt ?sync (CachedRecord exValid) (providerInit []))"
    using informer.Added [of exValid "{}" exExt ?sync "providerInit []"] by simp
  then have r: "(informer exExt ?sync)\<^sup>*\<^sup>* ({}, providerInit [])
      ({exValid}, addFunc exExt ?sync (CachedRecord exValid) (providerInit []))" by blast
  note f = informer_refines [OF exZones_laws exIter_iterates exIter_iterates r,
      THEN conjunct1, THEN spec, THEN spec, of "rrString exExt rr" rr]
  have "activeRecord exValid" by (simp add: activeRecord_def exValid_def)
  then have "\<exists>r \<in> {exValid}. activeRecord r \<and> ToRR exExt r = Inr rr \<and> rrString exExt rr = rrString exExt rr"
    using t by blast
  from f [THEN iffD2, OF this] have "fmlookup (p_records (addFunc exExt ?sync (CachedRecord exValid) (providerInit [])))
      (exString rr) = Some rr" unfolding exExt_sel .
  with r show ?thesis by (intro exI [of _ "addFunc exExt ?sync (CachedRecord exValid) (providerInit [])"] conjI exI [of _ rr])
qed

text \<open>
  C38. Two objects with the same text share one entry. Let the informer add two different active
  objects that convert to the same record, and then delete the second. The record is held and
  its zone listed after each addition, but lost after the deletion, although the first object is
  still there and active; the zone is no longer listed if no other record lies in it. An
  update event of the first object brings the record back.
\<close>

theorem same_text_lost:
  assumes "zone_laws L" and "iterates iter" and "iterates ziter"
    and "r \<noteq> s" and "activeRecord r" and "activeRecord s"
    and "ToRR E r = Inr rr" and "ToRR E s = Inr rr" and "zoneOf E L rr = InZone k"
  shows "let resync = (\<lambda>p. snd (sync E L iter ziter p));
             p1 = addFunc E resync (CachedRecord r) p;
             p2 = addFunc E resync (CachedRecord s) p1;
             p3 = deleteFunc E resync (CachedRecord s) p2;
             p4 = updateFunc E resync (CachedRecord r) (CachedRecord r) p3
         in fmlookup (p_records p1) (rrString E rr) = Some rr \<and> k \<in> set (zs_Names (p_zones p1))
            \<and> fmlookup (p_records p2) (rrString E rr) = Some rr \<and> k \<in> set (zs_Names (p_zones p2))
            \<and> fmlookup (p_records p3) (rrString E rr) = None \<and> \<not> serves E ({r, s} - {s}) (p_records p3)
            \<and> ((\<forall>v \<in> fmran' (p_records p). zoneOf E L v \<noteq> InZone k) \<longrightarrow> k \<notin> set (zs_Names (p_zones p3)))
            \<and> fmlookup (p_records p4) (rrString E rr) = Some rr \<and> k \<in> set (zs_Names (p_zones p4))"
proof -
  let ?s = "\<lambda>p. snd (sync E L iter ziter p)" and ?t = "rrString E rr"
  let ?p1 = "addFunc E ?s (CachedRecord r) p"
  let ?p2 = "addFunc E ?s (CachedRecord s) ?p1"
  let ?p3 = "deleteFunc E ?s (CachedRecord s) ?p2"
  let ?p4 = "updateFunc E ?s (CachedRecord r) (CachedRecord r) ?p3"
  note mk = makeRecord_plain [OF assms(7)] makeRecord_plain [OF assms(8)]
  note zs = sync_zones(2) [OF assms(1-3)]
  have m: "p_records ?p1 = fmupd ?t rr (p_records p)" "p_records ?p2 = fmupd ?t rr (fmupd ?t rr (p_records p))"
    "p_records ?p3 = fmdrop ?t (fmupd ?t rr (fmupd ?t rr (p_records p)))"
    "p_records ?p4 = fmupd ?t rr (fmdrop ?t (p_records ?p3))"
    using assms(5,6) by (simp_all add: addFunc_def deleteFunc_def updateFunc_def mk activeRecord_def Let_def)
  have z: "set (zs_Names (p_zones x)) = zoneSet E L (fmran' (p_records x))" if "x \<in> {?p1, ?p2, ?p3, ?p4}" for x
    using that assms(5,6) by (auto simp: addFunc_def deleteFunc_def updateFunc_def mk activeRecord_def Let_def zs)
  have in_zone: "k \<in> zoneSet E L (fmran' (fmupd ?t rr n))" for n
    using assms(9) by (auto simp: zoneSet_def intro!: bexI [of _ rr] fmran'I)
  have "\<not> serves E ({r, s} - {s}) (p_records ?p3)"
    using assms(4,5,7) by (auto simp: serves_def m)
  moreover have "k \<notin> zoneSet E L (fmran' (p_records ?p3))" if "\<forall>v \<in> fmran' (p_records p). zoneOf E L v \<noteq> InZone k"
    using that by (auto simp: zoneSet_def m fmlookup_ran'_iff split: if_splits)
  ultimately show ?thesis using in_zone m z unfolding Let_def by simp
qed

theorem same_text_lost_witness:
  "let resync = (\<lambda>p. snd (sync exExt exZones exIter exIter p));
       p1 = addFunc exExt resync (CachedRecord (exValid\<lparr>r_Meta := emptyMeta\<rparr>)) (providerInit []);
       p2 = addFunc exExt resync (CachedRecord exValid) p1;
       p3 = deleteFunc exExt resync (CachedRecord exValid) p2
   in ''example.org.'' \<in> set (zs_Names (p_zones p2)) \<and> ''example.org.'' \<notin> set (zs_Names (p_zones p3))"
proof -
  let ?rr = "RR_A (mkHeader ''www.example.org.'' TypeA 1 60) (ParseIP ''10.0.0.1'')"
  have t: "ToRR exExt exValid = Inr ?rr" "ToRR exExt (exValid\<lparr>r_Meta := emptyMeta\<rparr>) = Inr ?rr"
    by (simp_all add: ToRR_def specToRR_def exValid_def go_eval)
  have n: "exValid\<lparr>r_Meta := emptyMeta\<rparr> \<noteq> exValid"
    by (simp add: exValid_def exRecord_def emptyMeta_def)
  have a: "activeRecord exValid" "activeRecord (exValid\<lparr>r_Meta := emptyMeta\<rparr>)"
    by (simp_all add: activeRecord_def exValid_def)
  have z: "zoneOf exExt exZones ?rr = InZone ''example.org.''"
    by (simp add: zoneOf_def trimSuffix_def hasSuffix_def exPsl_def exDomain_def exFqdn_def exZones_def Let_def)
  have e: "fmran' (p_records (providerInit [])) = {}" by (auto simp: providerInit_def fmlookup_ran'_iff)
  from same_text_lost [OF exZones_laws exIter_iterates exIter_iterates n a(2,1) t(2,1) z, of "providerInit []"]
  show ?thesis unfolding Let_def e by blast
qed

text \<open>
  C19. Queries are answered from exactly the active objects. Take any state that the informer
  reaches from the start through additions, updates and deletions between sets of objects that
  all convert, with different texts. A query goes to the next plugin exactly if its name lies in
  no zone of an active object. Otherwise it is answered from a most specific zone of an active
  object that contains it, and never fails for want of the zone: the zone consulted has been
  built by inserting the records of the active objects of that zone, each once and no others,
  and completing the apex, and it has a SOA and an NS record. (The library's \<^verbatim>\<open>Matches\<close> finds a most
  specific zone, inserting the address of the name server must not fail, and normalised absolute
  names are not empty.)
\<close>

theorem query_answered:
  assumes "zone_laws L" and "iterates iter" and "iterates ziter" and "match_law sub A"
    and "\<forall>d. normalizeName L (dnsFqdn E d) \<noteq> []"
    and "ip = [] \<or> (\<forall>h a z. fst (zoneInsert L (RR_A h a) z) = None)"
    and "(informer E (\<lambda>p. snd (sync E L iter ziter p)))\<^sup>*\<^sup>* ({}, providerInit ip) (S, p)"
  shows "let zones = {k. \<exists>r \<in> S. \<exists>rr. activeRecord r \<and> ToRR E r = Inr rr \<and> zoneOf E L rr = InZone k}
    in if \<exists>k \<in> zones. sub k q
       then \<exists>k vs. k \<in> zones \<and> sub k q \<and> (\<forall>j \<in> zones. sub j q \<longrightarrow> length j \<le> length k)
          \<and> distinct vs
          \<and> set vs = {rr. zoneOf E L rr = InZone k \<and> (\<exists>r \<in> S. activeRecord r \<and> ToRR E r = Inr rr)}
          \<and> zoneSOA L (zoneBuilt L p k vs) \<noteq> None \<and> zoneNS L (zoneBuilt L p k vs) \<noteq> []
          \<and> ServeDNS A (p_zones p) (p_zones p) tcp fails q = serveZone A (Some (zoneBuilt L p k vs)) tcp fails q
       else ServeDNS A (p_zones p) (p_zones p) tcp fails q = NextPlugin"
proof -
  let ?zones = "zoneSet E L (activeRRs E S)"
  have Z: "{k. \<exists>r \<in> S. \<exists>rr. activeRecord r \<and> ToRR E r = Inr rr \<and> zoneOf E L rr = InZone k} = ?zones"
    by (auto simp: zoneSet_def activeRRs_def)
  have sv: "serves E S (p_records p)" using held.inv_reach [OF assms(7) refl] by simp
  have names: "set (zs_Names (p_zones p)) = ?zones"
    using listed.inv_reach [OF assms(7) refl] assms(1-3) serves_ran [OF sv] by (simp add: zonesFollow_def)
  have made: "zonesMade E L iter p" using made.inv_reach [OF assms(7) refl] assms(2,3,6) by auto
  have "zoneOf E L v \<noteq> InZone []" for v
    using assms(5) by (cases "pslDomain E (strJoin (splitDomainName E (h_Name (rrHeader v))) ''.'')") (simp_all add: zoneOf_def Let_def)
  then have ne: "k \<noteq> []" if "k \<in> ?zones" for k
    using that by (auto simp: zoneSet_def)
  define k where "k = zonesMatch A (zs_Names (p_zones p)) q"
  have k: "if \<exists>n \<in> ?zones. sub n q then k \<in> ?zones \<and> sub k q \<and> (\<forall>n \<in> ?zones. sub n q \<longrightarrow> length n \<le> length k) else k = []"
    using assms(4) unfolding match_law_def k_def names [symmetric] by blast
  show ?thesis
  proof (cases "\<exists>n \<in> ?zones. sub n q")
    case True
    let ?vs = "zoneRecords E L iter (p_records p) k"
    have kz: "k \<in> ?zones" "sub k q" "\<forall>n \<in> ?zones. sub n q \<longrightarrow> length n \<le> length k" using k True by simp_all
    note vs = zoneRecords_active [OF sv assms(2), of L k]
    have "?vs \<noteq> []" using kz(1) vs(2) by (force simp: zoneSet_def)
    then have "fmlookup (zs_Z (p_zones p)) k = Some (zoneBuilt L p k ?vs)" using made by (simp add: zonesMade_def Let_def)
    then have "ServeDNS A (p_zones p) (p_zones p) tcp fails q = serveZone A (Some (zoneBuilt L p k ?vs)) tcp fails q"
      using ne [OF kz(1)] by (simp add: ServeDNS_def k_def [symmetric])
    moreover have "apexOk L (zoneBuilt L p k ?vs)" unfolding zoneBuilt_def by (rule completeZone_apex [OF assms(1)])
    moreover have "set ?vs = {rr. zoneOf E L rr = InZone k \<and> (\<exists>r \<in> S. activeRecord r \<and> ToRR E r = Inr rr)}"
      using vs(2) by (auto simp: activeRRs_def)
    ultimately show ?thesis unfolding Let_def Z using True kz vs(1) by (auto simp: apexOk_def)
  next
    case False
    then have "k = []" using k by simp
    then show ?thesis unfolding Let_def Z using False by (simp add: ServeDNS_def k_def)
  qed
qed

text \<open>A lookup that finds the records inserted, and the longest listed name that ends the query.\<close>

definition exAnswers :: "(rr option \<times> rr list \<times> rr list) answerLib" where
  "exAnswers = \<lparr>zonesMatch = (\<lambda>ns q. case filter (hasSuffix q) ns of
        [] \<Rightarrow> [] | x # xs \<Rightarrow> fold (\<lambda>n m. if length m < length n then n else m) xs x),
     zoneExpired = (\<lambda>z. False), zoneLookup = (\<lambda>z q. (snd (snd z), [], [], LSuccess))\<rparr>"

lemma exAnswers_match: "match_law (\<lambda>n q. hasSuffix q n) exAnswers"
proof -
  let ?f = "\<lambda>n m :: string. if length m < length n then n else m"
  have best: "fold ?f xs x \<in> set (x # xs) \<and> (\<forall>n \<in> set (x # xs). length n \<le> length (fold ?f xs x))" for x xs
    by (induction xs arbitrary: x) fastforce+
  have "if \<exists>n \<in> set ns. hasSuffix q n
      then zonesMatch exAnswers ns q \<in> set ns \<and> hasSuffix q (zonesMatch exAnswers ns q)
        \<and> (\<forall>n \<in> set ns. hasSuffix q n \<longrightarrow> length n \<le> length (zonesMatch exAnswers ns q))
      else zonesMatch exAnswers ns q = []" for ns q
  proof (cases "filter (hasSuffix q) ns")
    case Nil
    then show ?thesis by (auto simp: exAnswers_def filter_empty_conv)
  next
    case (Cons x xs)
    then have s: "set (x # xs) = {n \<in> set ns. hasSuffix q n}" by (metis set_filter)
    have m: "zonesMatch exAnswers ns q = fold ?f xs x" by (simp add: exAnswers_def Cons)
    show ?thesis using best [of xs x] s unfolding m by auto
  qed
  then show ?thesis unfolding match_law_def by blast
qed

theorem query_answered_witness:
  "\<exists>p rr m. (informer exExt (\<lambda>p. snd (sync exExt exZones exIter exIter p)))\<^sup>*\<^sup>* ({}, providerInit []) ({exValid}, p)
     \<and> ServeDNS exAnswers (p_zones p) (p_zones p) True (\<lambda>m. False) ''www.example.org.'' = Served RcodeSuccess (Some m)
     \<and> ToRR exExt exValid = Inr rr \<and> rp_Answer m = [rr]"
proof -
  let ?sync = "\<lambda>p. snd (sync exExt exZones exIter exIter p)"
  let ?rr = "RR_A (mkHeader ''www.example.org.'' TypeA 1 60) (ParseIP ''10.0.0.1'')"
  let ?p = "addFunc exExt ?sync (CachedRecord exValid) (providerInit [])"
  have t: "ToRR exExt exValid = Inr ?rr" by (simp add: ToRR_def specToRR_def exValid_def go_eval)
  then have "plain exExt {exValid}" by (auto simp: plain_def)
  then have r: "(informer exExt ?sync)\<^sup>*\<^sup>* ({}, providerInit []) ({exValid}, ?p)"
    using informer.Added [of exValid "{}" exExt ?sync "providerInit []"] by (simp add: r_into_rtranclp)
  have a: "activeRecord exValid" by (simp add: activeRecord_def exValid_def)
  have z: "zoneOf exExt exZones ?rr = InZone ''example.org.''"
    by (simp add: zoneOf_def trimSuffix_def hasSuffix_def exPsl_def exDomain_def exFqdn_def exZones_def Let_def)
  have q: "hasSuffix ''www.example.org.'' ''example.org.''" by (simp add: hasSuffix_def)
  have f: "\<forall>d. normalizeName exZones (dnsFqdn exExt d) \<noteq> []" by (auto simp: exZones_def exFqdn_def hasSuffix_def)
  have Z: "{k. \<exists>r \<in> {exValid}. \<exists>rr. activeRecord r \<and> ToRR exExt r = Inr rr \<and> zoneOf exExt exZones rr = InZone k} = {''example.org.''}"
    using t a z by auto
  from query_answered [OF exZones_laws exIter_iterates exIter_iterates exAnswers_match f _ r, of "''www.example.org.''" True "\<lambda>m. False"]
  obtain vs where vs: "distinct vs"
    "set vs = {rr. zoneOf exExt exZones rr = InZone ''example.org.'' \<and> (\<exists>r \<in> {exValid}. activeRecord r \<and> ToRR exExt r = Inr rr)}"
    "ServeDNS exAnswers (p_zones ?p) (p_zones ?p) True (\<lambda>m. False) ''www.example.org.''
      = serveZone exAnswers (Some (zoneBuilt exZones ?p ''example.org.'' vs)) True (\<lambda>m. False) ''www.example.org.''"
    unfolding Let_def Z using q by auto
  have "set vs = {?rr}" using vs(2) t a z by auto
  then have "vs = [?rr]" using vs(1) by (cases vs; cases "tl vs") auto
  moreover have "p_externalAddress ?p = []" using t by (simp add: addFunc_def makeRecord_plain providerInit_def)
  ultimately have "snd (snd (zoneBuilt exZones ?p ''example.org.'' vs)) = [?rr]"
    by (simp add: zoneBuilt_def insertAll_def completeZone_def exZones_def Let_def)
  then have "\<exists>m. ServeDNS exAnswers (p_zones ?p) (p_zones ?p) True (\<lambda>m. False) ''www.example.org.'' = Served RcodeSuccess (Some m)
      \<and> rp_Answer m = [?rr]"
    unfolding vs(3) by (simp add: serveZone_def makeReply_def exAnswers_def Let_def)
  with r t show ?thesis by blast
qed

text \<open>
  C33. Reading the directive's block, for any controller that yields finitely many lines: the
  loop ends, and its meaning is that the first line that is not \<^verbatim>\<open>external\<close> with an argument
  is an error; otherwise the last address given is used. A controller that yields no line gives
  no address. Without a cluster configuration the plugin does not start. (\<^verbatim>\<open>setup\<close> calls
  \<^verbatim>\<open>NextBlock\<close> without a preceding \<^verbatim>\<open>Next\<close>; which lines it yields then is up to caddy.)
\<close>

theorem setup_meaning:
  assumes "reads C c ls"
  shows "crdsSetup None None C c =
     Some (case blockMeaning [] ls of
             External e \<Rightarrow> Inr (providerInit (ParseIP e) :: 'z k8sProvider)
           | r \<Rightarrow> Inl r)
   \<and> (ls = [] \<longrightarrow> crdsSetup None None C c = Some (Inr (providerInit [] :: 'z k8sProvider)))
   \<and> (\<exists>r. (crdsSetup (Some err) cacheErr C c :: (setupResult + 'z k8sProvider) option) = Some (Inl r))"
proof -
  note l = setupLoop_reads [OF assms]
  have "crdsSetup None None C c = Some (Inr (providerInit (ParseIP []) :: 'z k8sProvider))" if "ls = []"
    using that by (simp add: crdsSetup_def l blockMeaning_def NewProvider_def)
  moreover have "ParseIP [] = []" by (simp add: ParseIP_def)
  moreover have "crdsSetup None None C c =
     Some (case blockMeaning [] ls of External e \<Rightarrow> Inr (providerInit (ParseIP e) :: 'z k8sProvider) | r \<Rightarrow> Inl r)"
    by (simp add: crdsSetup_def l NewProvider_def split: setupResult.splits)
  moreover have "\<exists>r. (crdsSetup (Some err) cacheErr C c :: (setupResult + 'z k8sProvider) option) = Some (Inl r)"
    by (simp add: crdsSetup_def l NewProvider_def split: setupResult.splits)
  ultimately show ?thesis by simp
qed

text \<open>The example's controller holds the current line and those to come.\<close>

definition exController :: "((string \<times> string list) \<times> (string \<times> string list) list) caddyController" where
  "exController =
     \<lparr>ct_NextBlock = (\<lambda>(cur, ls). case ls of [] \<Rightarrow> (False, (cur, [])) | l # ls' \<Rightarrow> (True, (l, ls'))),
      ct_Val = (\<lambda>(cur, ls). fst cur),
      ct_RemainingArgs = (\<lambda>(cur, ls). (snd cur, (cur, ls)))\<rparr>"

theorem setup_meaning_witness:
  "crdsSetup None None exController (([], []), [(''external'', [''10.0.0.1'']), (''external'', [''10.0.0.2''])])
     = Some (Inr (providerInit (ParseIP ''10.0.0.2'') :: bool k8sProvider))"
proof -
  have "reads exController (cur, ls) ls" for cur ls
  proof (induction ls arbitrary: cur)
    case Nil
    show ?case by (rule reads.no_line [where ?c1.0 = "(cur, [])"]) (simp add: exController_def)
  next
    case (Cons l ls)
    have "reads exController (cur, l # ls) ((ct_Val exController (l, ls), snd l) # ls)"
      by (rule reads.line [OF _ _ Cons.IH [of l]]) (simp_all add: exController_def)
    then show ?case by (simp add: exController_def)
  qed
  from setup_meaning [OF this, of "([], [])" "[(''external'', [''10.0.0.1'']), (''external'', [''10.0.0.2''])]",
      where 'z = bool] show ?thesis
    by (simp add: blockMeaning_def)
qed

end
