(* ===== verification/Inprocess.thy ===== *)
theory Inprocess
  imports Record_Lifecycle Coredns_Plugin
begin

text \<open>
  The operator as it runs by default: the record controller with the provider that does
  nothing (\<^verbatim>\<open>pkg/provider/coredns\<close>), and the DNS plugin in the same process, which serves
  what its informer has seen and against which the controller verifies the records. The
  theory follows repeated calls of the handler between the two.
\<close>

section \<open>Predicates\<close>

text \<open>The reconciler of the default configuration between a lawful server and quiet libraries.\<close>

definition inProcess ::
  "ext \<Rightarrow> 'w DNSRecordReconciler \<Rightarrow> ('w \<Rightarrow> NamespacedName \<Rightarrow> DNSRecord option) \<Rightarrow> bool" where
  "inProcess E R get \<longleftrightarrow>
     rc_Provider R = noop_Reconcile \<and> lawfulServer (rc_Client R) get \<and> quiet R get"

text \<open>An object in the server, defaulted and convertible.\<close>

definition storedRecord ::
  "ext \<Rightarrow> ('w \<Rightarrow> NamespacedName \<Rightarrow> DNSRecord option) \<Rightarrow> NamespacedName \<Rightarrow> rr \<Rightarrow> DNSRecord \<Rightarrow> 'w \<Rightarrow> bool" where
  "storedRecord E get req rr r w \<longleftrightarrow>
     get w req = Some r \<and> keyOf r = req \<and> Default E r = r \<and> ToRR E r = Inr rr"

text \<open>
  The plugin has caught up: its informer has delivered exactly the stored objects, and a
  query for \<open>rr\<close> is answered from what the plugin then holds.
\<close>

definition pluginAnswers ::
  "ext \<Rightarrow> ('z k8sProvider \<Rightarrow> 'z k8sProvider) \<Rightarrow> IP \<Rightarrow> 'w DNSRecordReconciler
     \<Rightarrow> ('w \<Rightarrow> NamespacedName \<Rightarrow> DNSRecord option) \<Rightarrow> rr \<Rightarrow> 'w \<Rightarrow> bool" where
  "pluginAnswers E resync ip R get rr w \<longleftrightarrow>
     (\<exists>p. (informer E resync)\<^sup>*\<^sup>* ({}, providerInit ip) (ran (get w), p)
        \<and> fst (lookup E R rr w) = Inr (fmlookup (p_records p) (rrString E rr) = Some rr))"

text \<open>How far the handler has come with an object, if the DNS shows \<open>b\<close> for it.\<close>

definition progress :: "ext \<Rightarrow> rr \<Rightarrow> bool \<Rightarrow> DNSRecord \<Rightarrow> nat" where
  "progress E rr b r =
     (if \<not> hasFinalizer r then 0
      else if st_Record (r_Status r) \<noteq> rrString E rr then 1
      else if ptr_ToBoolD (st_Active (r_Status r)) False \<noteq> b then 2
      else 3)"

section \<open>One call\<close>

lemma stored_start:
  assumes "inProcess E R get" and "storedRecord E get req rr r w" and "\<not> deletionRequested r"
  shows "dnsReconcile E R req w =
    (if \<not> hasFinalizer r then doneOr (k_Update (rc_Client R) (setFinalizer r) w)
     else if st_Record (r_Status r) \<noteq> rrString E rr
     then doneOr (k_StatusUpdate (rc_Client R) (r\<lparr>r_Status := (r_Status r)\<lparr>st_Record := rrString E rr\<rparr>\<rparr>) w)
     else verifyRecord E R rr r w)"
  using assms lawful_Get [of "rc_Client R" get req w]
  by (simp add: dnsReconcile_def storedRecord_def inProcess_def deletionRequested_def reconcileActive_def
      noop_Reconcile_def sameBinding_def)

text \<open>Writing the finalizer or the status leaves every other object alone.\<close>

lemma stored_write:
  assumes "storedRecord E get req rr r w" and "get w' = (get w)(req \<mapsto> u)" and "keyOf u = req" and "r_Spec u = r_Spec r"
  shows "storedRecord E get req rr u w'"
proof -
  have "Default E r = r" using assms(1) by (simp add: storedRecord_def)
  then have "Default E u = u" using assms(4) by (rule Default_kept)
  then show ?thesis using assms by (simp add: storedRecord_def ToRR_def)
qed

lemma finalizer_write:
  assumes "lawfulServer K get" and "get w req = Some r" and "keyOf r = req" and "\<not> deletionRequested r"
  obtains w' rv where "k_Update K (setFinalizer r) w = (None, w')"
    and "get w' = (get w)(req \<mapsto> withRV rv (setFinalizer r))"
proof -
  have "get w (keyOf (setFinalizer r)) = Some r" using assms(2,3) by simp
  moreover have "m_ResourceVersion (r_Meta (setFinalizer r)) = m_ResourceVersion (r_Meta r)"
    by (simp add: setFinalizer_def)
  ultimately obtain w' rv where w': "k_Update K (setFinalizer r) w = (None, w')"
    "get w' = (get w)(keyOf (setFinalizer r) := if deletionRequested r \<and> m_Finalizers (r_Meta (setFinalizer r)) = []
       then None else Some (withRV rv (serverUpdate r (setFinalizer r))))"
    by (rule lawful_Update [OF assms(1)])
  have "serverUpdate r (setFinalizer r) = setFinalizer r"
    by (simp add: serverUpdate_def setFinalizer_def)
  then show thesis using that w' assms(3,4) by simp
qed

lemma status_write:
  assumes "lawfulServer K get" and "get w req = Some r" and "keyOf r = req"
  obtains w' rv where "k_StatusUpdate K (r\<lparr>r_Status := s\<rparr>) w = (None, w')"
    and "get w' = (get w)(req \<mapsto> withRV rv (r\<lparr>r_Status := s\<rparr>))"
proof -
  have k: "keyOf (r\<lparr>r_Status := s\<rparr>) = req" using assms(3) by (simp add: keyOf_def)
  have "get w (keyOf (r\<lparr>r_Status := s\<rparr>)) = Some r" using k assms(2) by simp
  then show thesis using lawful_Status [OF assms(1), of w "r\<lparr>r_Status := s\<rparr>" r] that k by auto
qed

lemma keeps_stored:
  assumes "storedRecord E get req rr r w" and "\<not> deletionRequested r" and "get w' = (get w)(req \<mapsto> withRV rv u)"
    and "keyOf u = req" and "r_Spec u = r_Spec r" and "m_DeletionTimestamp (r_Meta u) = m_DeletionTimestamp (r_Meta r)"
  shows "storedRecord E get req rr (withRV rv u) w' \<and> r_Spec (withRV rv u) = r_Spec r \<and> \<not> deletionRequested (withRV rv u)
    \<and> (\<forall>k. k \<noteq> req \<longrightarrow> get w' k = get w k) \<and> progress E rr b (withRV rv u) = progress E rr b u"
  using stored_write [OF assms(1,3)] assms(2-6)
  by (simp add: deletionRequested_def progress_def)

text \<open>The last stage: the result of the query goes into the status, or is there already.\<close>

lemma verify_call:
  assumes "inProcess E R get" and "storedRecord E get req rr r w" and "\<not> deletionRequested r"
    and "fst (lookup E R rr w) = Inr b" and "hasFinalizer r" and "st_Record (r_Status r) = rrString E rr"
    and "verifyRecord E R rr r w = (out, w')"
  shows "\<exists>u. storedRecord E get req rr u w' \<and> r_Spec u = r_Spec r \<and> \<not> deletionRequested u
    \<and> (\<forall>k. k \<noteq> req \<longrightarrow> get w' k = get w k) \<and> min 3 (Suc (progress E rr b r)) \<le> progress E rr b u
    \<and> (progress E rr b r = 3 \<longrightarrow> get w' = get w) \<and> (b = activeRecord r \<longrightarrow> out = finished)"
proof -
  have S: "lawfulServer (rc_Client R) get" "quiet R get" using assms(1) by (simp_all add: inProcess_def)
  obtain w1 where l: "lookup E R rr w = (Inr b, w1)" using assms(4) by (metis prod.collapse)
  have q: "get w1 = get w" by (rule quiet_lookup [OF S(2) l])
  have st: "storedRecord E get req rr r v" if "get v = get w" for v using assms(2) that by (simp add: storedRecord_def)
  show ?thesis
  proof (cases "ptr_ToBoolD (st_Active (r_Status r)) False = b")
    case True
    have p: "progress E rr b r = 3" using True assms(5,6) by (simp add: progress_def)
    have w': "get w' = get w" "b = activeRecord r \<longrightarrow> out = finished"
      using assms(7) l True q S(2) by (auto simp: verifyRecord_def activeRecord_def split: if_splits option.splits)
    then show ?thesis using st [OF w'(1)] assms(3) p by (intro exI [of _ r]) simp
  next
    case False
    let ?u = "r\<lparr>r_Status := (r_Status r)\<lparr>st_Active := ptr_Bool b\<rparr>\<rparr>"
    let ?w2 = "if \<not> b then rec_Warn E (rc_recorder R) ?u ''Warning'' (''record '' @ recordState b) w1 else w1"
    have g: "get ?w2 = get w" using q S(2) by simp
    have g2: "get ?w2 req = Some r" "keyOf r = req" using g assms(2) by (simp_all add: storedRecord_def)
    obtain w3 rv where w3: "k_StatusUpdate (rc_Client R) ?u ?w2 = (None, w3)"
      "get w3 = (get ?w2)(req \<mapsto> withRV rv ?u)" by (rule status_write [where get = get and w = ?w2 and req = req, OF S(1) g2])
    have e: "out = finished" "w' = w3" using assms(7) l False w3(1) by (simp_all add: verifyRecord_def doneOr_def Let_def)
    have u: "keyOf ?u = req" "progress E rr b ?u = 3" "progress E rr b r = 2"
      using g2(2) False assms(5,6) by (simp_all add: keyOf_def progress_def hasFinalizer_iff ptr_ToBoolD_def ptr_Bool_def)
    from keeps_stored [where get = get and w = ?w2, OF st [OF g] assms(3) w3(2) u(1)] show ?thesis
      using u e g by (intro exI [of _ "withRV rv ?u"]) simp
  qed
qed

text \<open>Each call takes the object at least one stage further, or it is there and stays.\<close>

lemma inProcess_call:
  assumes "inProcess E R get" and "storedRecord E get req rr r w" and "\<not> deletionRequested r"
    and "fst (lookup E R rr w) = Inr b" and "dnsReconcile E R req w = (out, w')"
  shows "\<exists>u. storedRecord E get req rr u w' \<and> r_Spec u = r_Spec r \<and> \<not> deletionRequested u
    \<and> (\<forall>k. k \<noteq> req \<longrightarrow> get w' k = get w k) \<and> min 3 (Suc (progress E rr b r)) \<le> progress E rr b u
    \<and> (progress E rr b r = 3 \<longrightarrow> get w' = get w) \<and> (b = activeRecord r \<longrightarrow> out = finished)"
proof -
  have S: "lawfulServer (rc_Client R) get" "quiet R get" using assms(1) by (simp_all add: inProcess_def)
  have g: "get w req = Some r" "keyOf r = req" using assms(2) by (simp_all add: storedRecord_def)
  note start = stored_start [OF assms(1-3)]
  consider (fin) "\<not> hasFinalizer r" | (unseen) "hasFinalizer r" "st_Record (r_Status r) \<noteq> rrString E rr"
    | (verify) "hasFinalizer r" "st_Record (r_Status r) = rrString E rr" by blast
  then show ?thesis
  proof cases
    case fin
    obtain w1 rv where w1: "k_Update (rc_Client R) (setFinalizer r) w = (None, w1)"
      "get w1 = (get w)(req \<mapsto> withRV rv (setFinalizer r))" by (rule finalizer_write [OF S(1) g assms(3)])
    have e: "out = finished" "w' = w1" using assms(5) start fin w1(1) by (simp_all add: doneOr_def)
    have "m_DeletionTimestamp (r_Meta (setFinalizer r)) = m_DeletionTimestamp (r_Meta r)" by (simp add: setFinalizer_def)
    from keeps_stored [OF assms(2,3) w1(2) _ _ this] show ?thesis
      using fin e g by (intro exI [of _ "withRV rv (setFinalizer r)"]) (simp add: progress_def)
  next
    case unseen
    let ?u = "r\<lparr>r_Status := (r_Status r)\<lparr>st_Record := rrString E rr\<rparr>\<rparr>"
    obtain w1 rv where w1: "k_StatusUpdate (rc_Client R) ?u w = (None, w1)"
      "get w1 = (get w)(req \<mapsto> withRV rv ?u)" by (rule status_write [OF S(1) g])
    have e: "out = finished" "w' = w1" using assms(5) start unseen w1(1) by (simp_all add: doneOr_def)
    have "keyOf ?u = req" "hasFinalizer ?u" using g unseen(1) by (simp_all add: keyOf_def hasFinalizer_iff)
    with keeps_stored [OF assms(2,3) w1(2)] show ?thesis
      using unseen e by (intro exI [of _ "withRV rv ?u"]) (simp add: progress_def)
  next
    case verify
    then have v: "verifyRecord E R rr r w = (out, w')" using assms(5) start by simp
    show ?thesis by (rule verify_call [OF assms(1-4) verify v])
  qed
qed

section \<open>Sequences of calls\<close>

text \<open>A plugin that has caught up shows a stored object exactly if it is active.\<close>

lemma plugin_shows:
  assumes "pluginAnswers E (\<lambda>p. snd (sync E L iter ziter p)) ip R get rr w" and "storedRecord E get req rr r w"
  shows "fst (lookup E R rr w) = Inr (activeRecord r)"
proof -
  obtain p where p: "(informer E (\<lambda>p. snd (sync E L iter ziter p)))\<^sup>*\<^sup>* ({}, providerInit ip) (ran (get w), p)"
    "fst (lookup E R rr w) = Inr (fmlookup (p_records p) (rrString E rr) = Some rr)"
    using assms(1) by (auto simp: pluginAnswers_def)
  have i: "plain E (ran (get w))" "serves E (ran (get w)) (p_records p)"
    using held.inv_reach [OF p(1) refl] by simp_all
  have r: "r \<in> ran (get w)" "ToRR E r = Inr rr" using assms(2) by (auto simp: storedRecord_def ran_def)
  have "s = r" if "s \<in> ran (get w)" "ToRR E s = Inr rr" for s
    using i(1) that r unfolding plain_def by blast
  then have "fmlookup (p_records p) (rrString E rr) = Some rr \<longleftrightarrow> activeRecord r"
    using i(2) r unfolding serves_def by blast
  then show ?thesis using p(2) by simp
qed

lemma run_Suc: "run E R req (Suc n) w = snd (dnsReconcile E R req (run E R req n w))"
  by (simp add: run_def)

lemma inProcess_run:
  assumes "inProcess E R get" and "storedRecord E get req rr r w" and "\<not> deletionRequested r"
    and "\<And>n u. storedRecord E get req rr u (run E R req n w) \<Longrightarrow> r_Spec u = r_Spec r \<Longrightarrow>
      fst (lookup E R rr (run E R req n w)) = Inr (activeRecord r)"
  shows "\<exists>u. storedRecord E get req rr u (run E R req n w) \<and> r_Spec u = r_Spec r \<and> \<not> deletionRequested u
    \<and> (\<forall>k. k \<noteq> req \<longrightarrow> get (run E R req n w) k = get w k)
    \<and> min 3 (n + progress E rr (activeRecord r) r) \<le> progress E rr (activeRecord r) u"
proof (induction n)
  case 0
  then show ?case using assms(2,3) by (auto simp: run_def)
next
  case (Suc n)
  then obtain u where u: "storedRecord E get req rr u (run E R req n w)" "r_Spec u = r_Spec r" "\<not> deletionRequested u"
    "\<forall>k. k \<noteq> req \<longrightarrow> get (run E R req n w) k = get w k"
    "min 3 (n + progress E rr (activeRecord r) r) \<le> progress E rr (activeRecord r) u" by blast
  obtain out w' where d: "dnsReconcile E R req (run E R req n w) = (out, w')" by fastforce
  from inProcess_call [OF assms(1) u(1,3) assms(4) [OF u(1,2)] d] u show ?case
    by (auto simp: run_Suc d)
qed

text \<open>At the last stage nothing changes any more.\<close>

lemma inProcess_stays:
  assumes "inProcess E R get" and "storedRecord E get req rr u w" and "\<not> deletionRequested u"
    and "fst (lookup E R rr w) = Inr (activeRecord u)" and "3 \<le> progress E rr (activeRecord u) u"
  shows "fst (dnsReconcile E R req w) = finished \<and> get (snd (dnsReconcile E R req w)) = get w"
proof -
  obtain out w' where d: "dnsReconcile E R req w = (out, w')" by fastforce
  have "progress E rr (activeRecord u) u = 3" using assms(5) by (auto simp: progress_def split: if_splits)
  then show ?thesis using inProcess_call [OF assms(1-4) d] d by auto
qed

lemma progress_3:
  "3 \<le> progress E rr b u \<Longrightarrow> hasFinalizer u \<and> st_Record (r_Status u) = rrString E rr
     \<and> ptr_ToBoolD (st_Active (r_Status u)) False = b"
  by (auto simp: progress_def split: if_splits)

lemma deleted_call:
  assumes "inProcess E R get" and "storedRecord E get req rr r w" and "deletionRequested r"
    and "m_Finalizers (r_Meta r) = [RecordFinalizer]"
  shows "\<exists>w'. dnsReconcile E R req w = (finished, w') \<and> get w' = (get w)(req := None)"
proof -
  have S: "lawfulServer (rc_Client R) get" "quiet R get" "rc_Provider R = noop_Reconcile"
    using assms(1) by (simp_all add: inProcess_def)
  have g: "get w req = Some r" "keyOf r = req" using assms(2) by (simp_all add: storedRecord_def)
  let ?w = "rec_Event E (rc_recorder R) r ''Deleted'' (''Deleted DNSRecord '' @ namespacedNameString req) w"
  let ?u = "r\<lparr>r_Meta := (r_Meta r)\<lparr>m_Finalizers := []\<rparr>\<rparr>"
  have k: "keyOf ?u = req" using g(2) by (simp add: keyOf_def)
  have "get ?w (keyOf ?u) = Some r" using k g(1) S(2) by simp
  moreover have "m_ResourceVersion (r_Meta ?u) = m_ResourceVersion (r_Meta r)" by simp
  ultimately obtain w' rv where w': "k_Update (rc_Client R) ?u ?w = (None, w')"
    "get w' = (get ?w)(keyOf ?u := if deletionRequested r \<and> m_Finalizers (r_Meta ?u) = []
       then None else Some (withRV rv (serverUpdate r ?u)))"
    by (rule lawful_Update [where get = get and w = ?w, OF S(1)])
  have "removeFinalizer r = (True, ?u)"
    using removeFinalizer_split [of r "[]" "[]"] assms(4) by simp
  then have "dnsReconcile E R req w = (finished, w')"
    using assms(2,3) S(3) w'(1) lawful_Get [OF S(1), of req w]
    by (simp add: dnsReconcile_def storedRecord_def deletionRequested_def reconcileDeleted_def noop_Reconcile_def
        sameBinding_def doneOr_def)
  then show ?thesis using w'(2) assms(3) k S(2) by simp
qed

text \<open>An informer that has delivered one object.\<close>

lemma informer_single:
  assumes "ToRR E u = Inr rr"
  shows "\<exists>p. (informer E (\<lambda>p. snd (sync E L iter ziter p)))\<^sup>*\<^sup>* ({}, providerInit ip) ({u}, p)
    \<and> (fmlookup (p_records p) (rrString E rr) = Some rr \<longleftrightarrow> activeRecord u)"
proof -
  let ?sync = "\<lambda>p. snd (sync E L iter ziter p)"
  let ?p = "addFunc E ?sync (CachedRecord u) (providerInit ip)"
  have "plain E {u}" using assms by (auto simp: plain_def)
  then have "informer E ?sync ({}, providerInit ip) ({u}, ?p)"
    using informer.Added [of u "{}" E ?sync "providerInit ip"] by simp
  moreover have "fmlookup (p_records ?p) (rrString E rr) = Some rr \<longleftrightarrow> activeRecord u"
    by (simp add: addFunc_def makeRecord_plain [OF assms] sync_records activeRecord_def providerInit_def)
  ultimately show ?thesis by blast
qed

text \<open>After enough calls an object with its defaults is at the last stage, and stays.\<close>

lemma inProcess_final:
  assumes "inProcess E R get" and "storedRecord E get req rr r w" and "\<not> deletionRequested r"
    and "\<And>n. pluginAnswers E (\<lambda>p. snd (sync E L iter ziter p)) ip R get rr (run E R req n w)"
    and "3 \<le> m + progress E rr (activeRecord r) r"
  shows "(\<exists>u. storedRecord E get req rr u (run E R req m w) \<and> r_Spec u = r_Spec r \<and> hasFinalizer u
         \<and> st_Record (r_Status u) = rrString E rr \<and> ptr_ToBoolD (st_Active (r_Status u)) False = activeRecord r)
      \<and> fst (dnsReconcile E R req (run E R req m w)) = finished
      \<and> get (run E R req (Suc m) w) = get (run E R req m w)
      \<and> (\<forall>k. k \<noteq> req \<longrightarrow> get (run E R req m w) k = get w k)"
proof -
  have l: "fst (lookup E R rr (run E R req m w)) = Inr (activeRecord r)"
    if "storedRecord E get req rr u (run E R req m w)" "r_Spec u = r_Spec r" for m u
    using plugin_shows [OF assms(4) that(1)] that(2) by (simp add: activeRecord_def)
  have "\<exists>u. storedRecord E get req rr u (run E R req m w) \<and> r_Spec u = r_Spec r \<and> \<not> deletionRequested u
    \<and> (\<forall>k. k \<noteq> req \<longrightarrow> get (run E R req m w) k = get w k)
    \<and> min 3 (m + progress E rr (activeRecord r) r) \<le> progress E rr (activeRecord r) u"
    by (rule inProcess_run [OF assms(1-3)]) (erule (1) l)
  then obtain u where u: "storedRecord E get req rr u (run E R req m w)" "r_Spec u = r_Spec r" "\<not> deletionRequested u"
    "\<forall>k. k \<noteq> req \<longrightarrow> get (run E R req m w) k = get w k" "3 \<le> progress E rr (activeRecord r) u"
    using assms(5) by auto
  have a: "activeRecord u = activeRecord r" using u(2) by (simp add: activeRecord_def)
  have "fst (dnsReconcile E R req (run E R req m w)) = finished
      \<and> get (snd (dnsReconcile E R req (run E R req m w))) = get (run E R req m w)"
    using inProcess_stays [OF assms(1) u(1,3)] l [OF u(1,2)] u(5) a by simp
  then show ?thesis using u(1,2,4) progress_3 [OF u(5)] unfolding run_Suc by blast
qed

text \<open>The first call for an object without our finalizer stores it with its defaults.\<close>

lemma first_call:
  assumes "inProcess E R get" and "psl_no_dot E" and "lower_stable E" and "get w req = Some r" and "keyOf r = req"
    and "ToRR E (Default E r) = Inr rr" and "\<not> deletionRequested r" and "\<not> hasFinalizer r"
  shows "\<exists>u w'. dnsReconcile E R req w = (finished, w') \<and> storedRecord E get req rr u w' \<and> r_Spec u = r_Spec (Default E r)
    \<and> \<not> deletionRequested u \<and> hasFinalizer u \<and> (\<forall>k. k \<noteq> req \<longrightarrow> get w' k = get w k)"
proof -
  have S: "lawfulServer (rc_Client R) get" using assms(1) by (simp add: inProcess_def)
  let ?u = "setFinalizer (Default E r)"
  have k: "keyOf ?u = req" using assms(5) by simp
  have g: "get w (keyOf ?u) = Some r" using k assms(4) by simp
  have v: "m_ResourceVersion (r_Meta ?u) = m_ResourceVersion (r_Meta r)" by (simp add: setFinalizer_def)
  obtain w' rv where w': "k_Update (rc_Client R) ?u w = (None, w')"
    "get w' = (get w)(keyOf ?u := if deletionRequested r \<and> m_Finalizers (r_Meta ?u) = [] then None
       else Some (withRV rv (serverUpdate r ?u)))"
    by (rule lawful_Update [OF S g v])
  have "serverUpdate r ?u = ?u" by (simp add: serverUpdate_def setFinalizer_def)
  then have w2: "get w' = (get w)(req \<mapsto> withRV rv ?u)" using w'(2) k by simp
  have "Default E (Default E r) = Default E r" by (simp add: Default_def defaultSpec_idem [OF assms(2,3)])
  then have "Default E (withRV rv ?u) = withRV rv ?u" by (rule Default_kept) simp
  then have "storedRecord E get req rr (withRV rv ?u) w'"
    using w2 k assms(6) by (simp add: storedRecord_def ToRR_def)
  moreover have "dnsReconcile E R req w = (finished, w')"
    using assms(4,6-8) lawful_Get [OF S, of req w] w'(1) by (simp add: dnsReconcile_def deletionRequested_def)
  moreover have "\<not> deletionRequested (withRV rv ?u)" using assms(7) by (simp add: deletionRequested_def setFinalizer_def)
  ultimately show ?thesis using w2 by (intro exI [of _ "withRV rv ?u"] exI [of _ w']) simp
qed

section \<open>Properties\<close>

text \<open>
  C3. A record in the default configuration, served by the operator itself. Take a stored record
  whose defaulted form converts; without our finalizer it may still lack its defaults, as after
  a submission with the webhook off, with our finalizer it must have them. Assume that the plugin
  keeps up with the server: after each call its informer has delivered exactly the stored
  objects (all of which convert, with different texts), and queries are answered from the
  records it holds. Then three calls of the handler bring the record to its final state: its
  defaults and our finalizer on it, its text in the status, and the status active exactly if the
  record is switched on. From then on every call ends without an error and changes no object;
  other objects are never changed. A record marked for deletion whose only finalizer is ours
  leaves the server with the first call.
\<close>

theorem inprocess_lifecycle:
  assumes "inProcess E R get" and "psl_no_dot E" and "lower_stable E"
    and "get w req = Some r" and "keyOf r = req" and "ToRR E (Default E r) = Inr rr"
    and "hasFinalizer r \<longrightarrow> Default E r = r"
    and "\<And>n. 0 < n \<or> hasFinalizer r \<Longrightarrow>
      pluginAnswers E (\<lambda>p. snd (sync E L iter ziter p)) ip R get rr (run E R req n w)"
  shows "(\<not> deletionRequested r \<longrightarrow>
      (\<exists>u. storedRecord E get req rr u (run E R req (3 + n) w) \<and> r_Spec u = r_Spec (Default E r) \<and> hasFinalizer u
         \<and> st_Record (r_Status u) = rrString E rr
         \<and> ptr_ToBoolD (st_Active (r_Status u)) False = activeRecord r)
      \<and> fst (dnsReconcile E R req (run E R req (3 + n) w)) = finished
      \<and> get (run E R req (Suc (3 + n)) w) = get (run E R req (3 + n) w)
      \<and> (\<forall>k. k \<noteq> req \<longrightarrow> get (run E R req (3 + n) w) k = get w k))
    \<and> (deletionRequested r \<and> m_Finalizers (r_Meta r) = [RecordFinalizer] \<longrightarrow>
      get (run E R req 1 w) = (get w)(req := None))"
proof (cases "hasFinalizer r")
  case True
  then have d: "Default E r = r" using assms(7) by simp
  then have st: "storedRecord E get req rr r w" using assms(4-6) by (simp add: storedRecord_def)
  have p: "pluginAnswers E (\<lambda>p. snd (sync E L iter ziter p)) ip R get rr (run E R req n w)" for n
    using assms(8) True by blast
  show ?thesis
    using inProcess_final [OF assms(1) st _ p, of "3 + n"] deleted_call [OF assms(1) st] d by (auto simp: run_def)
next
  case False
  then have f: "m_Finalizers (r_Meta r) \<noteq> [RecordFinalizer]" by (auto simp: hasFinalizer_iff)
  have a: "activeRecord u = activeRecord r" if "r_Spec u = r_Spec (Default E r)" for u
    using that by (simp add: activeRecord_def defaultSpec_Active ptr_ToBoolD_def split: option.splits)
  show ?thesis
  proof (cases "deletionRequested r")
    case True
    then show ?thesis using f by simp
  next
    case False
    obtain u w1 where u: "dnsReconcile E R req w = (finished, w1)" "storedRecord E get req rr u w1"
      "r_Spec u = r_Spec (Default E r)" "\<not> deletionRequested u" "hasFinalizer u" "\<forall>k. k \<noteq> req \<longrightarrow> get w1 k = get w k"
      using first_call [OF assms(1-6) False \<open>\<not> hasFinalizer r\<close>] by blast
    have r1: "run E R req (Suc m) w = run E R req m w1" for m using u(1) by (simp add: run_simps)
    have p: "pluginAnswers E (\<lambda>p. snd (sync E L iter ziter p)) ip R get rr (run E R req m w1)" for m
      using assms(8) [of "Suc m"] unfolding r1 by simp
    have "1 \<le> progress E rr (activeRecord u) u" using u(5) by (simp add: progress_def)
    then have "3 \<le> (2 + n) + progress E rr (activeRecord u) u" by simp
    from inProcess_final [OF assms(1) u(2,4) p this] show ?thesis
      using f u(3,6) a [OF u(3)] unfolding numeral_3_eq_3 numeral_2_eq_2 add_Suc add_0 r1 by auto
  qed
qed

lemma ex_inProcess: "inProcess exExt (exRc noop_Reconcile exRR) memGet"
  by (simp add: inProcess_def memK_lawful quiet_def exRc_def)

text \<open>The object of the example is stored without its defaults, which the first call writes.\<close>

theorem inprocess_lifecycle_witness:
  "\<exists>u. memGet (run exExt (exRc noop_Reconcile exRR) exKey (3 + 1) ([exBare], ())) exKey = Some u
     \<and> r_Spec u = r_Spec exStored
     \<and> hasFinalizer u \<and> st_Record (r_Status u) = rrString exExt exRR \<and> st_Active (r_Status u) = Some True"
proof -
  let ?R = "exRc noop_Reconcile exRR" and ?w = "([exBare], ()) :: DNSRecord list \<times> unit"
  let ?sync = "\<lambda>p. snd (sync exExt exZones exIter exIter p)"
  note bare = exBare_arrived(1) [of "()", unfolded arrived_def]
  have st: "memGet ?w exKey = Some exBare" "keyOf exBare = exKey" "ToRR exExt (Default exExt exBare) = Inr exRR"
    "hasFinalizer exBare \<longrightarrow> Default exExt exBare = exBare"
    using bare by (simp_all add: managed_def)
  have d: "\<not> deletionRequested exBare" by (rule not_gone_not_deleted [OF exBare_arrived(2)])
  have f: "\<not> hasFinalizer exBare" by (simp add: hasFinalizer_iff exBare_def exStored_def exValid_def exRecord_def emptyMeta_def)
  have a: "activeRecord exBare" by (simp add: activeRecord_def exBare_def emptySpec_def ptr_ToBoolD_def)
  have l: "fst (lookup exExt ?R exRR w) = Inr True" for w :: "DNSRecord list \<times> unit"
    by (simp add: lookup_def)
  obtain u0 w1 where u0: "dnsReconcile exExt ?R exKey ?w = (finished, w1)" "storedRecord exExt memGet exKey exRR u0 w1"
    "r_Spec u0 = r_Spec (Default exExt exBare)" "\<not> deletionRequested u0" "\<forall>k. k \<noteq> exKey \<longrightarrow> memGet w1 k = memGet ?w k"
    using first_call [where get = memGet and w = ?w, OF ex_inProcess exExt_laws(2,3) st(1-3) d f] by blast
  have a0: "activeRecord u0" using u0(3) a by (simp add: activeRecord_def defaultSpec_Active ptr_ToBoolD_def split: option.splits)
  have p: "pluginAnswers exExt ?sync [] ?R memGet exRR (run exExt ?R exKey n ?w)" if "0 < n \<or> hasFinalizer exBare" for n
  proof -
    have "0 < n" using that f by simp
    then obtain m where m: "n = Suc m" using gr0_implies_Suc by blast
    have run: "run exExt ?R exKey n ?w = run exExt ?R exKey m w1" using u0(1) by (simp add: m run_simps)
    obtain u where u: "storedRecord exExt memGet exKey exRR u (run exExt ?R exKey m w1)" "r_Spec u = r_Spec u0"
      "\<forall>k. k \<noteq> exKey \<longrightarrow> memGet (run exExt ?R exKey m w1) k = memGet w1 k"
      using inProcess_run [where n = m, OF ex_inProcess u0(2,4)] l a0 by auto
    have "memGet ?w k = None" if "k \<noteq> exKey" for k using that st(2) by (simp add: memGet_def)
    then have r: "ran (memGet (run exExt ?R exKey m w1)) = {u}"
      using u(1,3) u0(5) by (auto simp: ran_def storedRecord_def) (metis option.distinct(1) option.inject)
    have "ToRR exExt u = Inr exRR" "activeRecord u" using u(1,2) a0 by (simp_all add: storedRecord_def activeRecord_def)
    then show ?thesis using informer_single [of exExt u exRR] l unfolding pluginAnswers_def run r by fastforce
  qed
  from inprocess_lifecycle [where get = memGet and w = ?w, OF ex_inProcess exExt_laws(2,3) st p, of 1] d a
  show ?thesis unfolding exBare_arrived(3) by (auto simp: storedRecord_def ptr_ToBoolD_def split: option.splits)
qed

end
