(* ===== verification/Child_Records.thy ===== *)
theory Child_Records
  imports K8s_Client
begin

text \<open>
  Component \<^verbatim>\<open>controllers/child_records.go\<close>: the records that a Service or an Ingress owns.
  It names them (\<^verbatim>\<open>recordName\<close>), finds the ones it has (\<^verbatim>\<open>childRecords\<close>), compares them
  with the ones it wants (\<^verbatim>\<open>diffRecords\<close>) and writes the difference
  (\<^verbatim>\<open>reconcileChildRecords\<close>). The owner-reference functions of the Kubernetes libraries
  are the record \<open>owners\<close>.
\<close>

section \<open>Definitions\<close>

definition HostnameAnnotation :: string where "HostnameAnnotation = ''dns.linka.cloud/hostname''"
definition TargetAnnotation :: string where "TargetAnnotation = ''dns.linka.cloud/target''"
definition TTLAnnotation :: string where "TTLAnnotation = ''dns.linka.cloud/ttl''"
definition IgnoredAnnotation :: string where "IgnoredAnnotation = ''dns.linka.cloud/ignore''"
definition IngressAnnotation :: string where "IngressAnnotation = ''dns.linka.cloud/ingress''"
definition ServiceAnnotation :: string where "ServiceAnnotation = ''dns.linka.cloud/service''"
definition ownerKey :: string where "ownerKey = ''.metadata.controller''"

text \<open>\<^verbatim>\<open>strings.NewReplacer(".", "-", "*", "wildcard").Replace\<close>: one pass over the bytes.\<close>

definition hostByte :: "char \<Rightarrow> string" where
  "hostByte c = (if c = CHR ''.'' then ''-'' else if c = CHR ''*'' then ''wildcard'' else [c])"

definition recordName :: "string \<Rightarrow> string \<Rightarrow> string \<Rightarrow> nat \<Rightarrow> string" where
  "recordName name kind host index =
     name @ ''-'' @ kind @ ''-'' @ concat (map hostByte host) @ ''-'' @ itoa index"

text \<open>
  \<^verbatim>\<open>metav1.IsControlledBy(obj, owner)\<close>, \<^verbatim>\<open>ctrl.SetControllerReference(owner, obj, scheme)\<close>
  (with the owner's type, which the scheme finds) and \<^verbatim>\<open>metav1.GetControllerOf\<close>.
\<close>

datatype ownerKind = ServiceKind | IngressKind

record owners =
  isControlledBy :: "ObjectMeta \<Rightarrow> ObjectMeta \<Rightarrow> bool"
  setControllerReference :: "ownerKind \<Rightarrow> ObjectMeta \<Rightarrow> ObjectMeta \<Rightarrow> go_error + ObjectMeta"
  getControllerOf :: "ObjectMeta \<Rightarrow> OwnerReference option"

definition annotations :: "ObjectMeta \<Rightarrow> (string, string) fmap" where
  "annotations m = (case m_Annotations m of None \<Rightarrow> fmempty | Some a \<Rightarrow> a)"

text \<open>The loop of \<^verbatim>\<open>childRecords\<close> over the listed records.\<close>

fun childLoop :: "owners \<Rightarrow> ownerKind \<Rightarrow> ObjectMeta \<Rightarrow> string \<Rightarrow> DNSRecord list \<Rightarrow> go_error + DNSRecord list" where
  "childLoop M k ob annotation [] = Inr []"
| "childLoop M k ob annotation (v # vs) =
     (if isControlledBy M (r_Meta v) ob then map_sum id (\<lambda>l. v # l) (childLoop M k ob annotation vs)
      else if annotations (r_Meta v) = fmempty then childLoop M k ob annotation vs
      else if fmlookup (annotations (r_Meta v)) annotation = Some (m_Name ob) then
        (case setControllerReference M k ob (r_Meta v) of
           Inl e \<Rightarrow> Inl e
         | Inr m \<Rightarrow> map_sum id (\<lambda>l. v\<lparr>r_Meta := m\<rparr> # l) (childLoop M k ob annotation vs))
      else childLoop M k ob annotation vs)"

definition childRecords ::
  "owners \<Rightarrow> 'w kclient \<Rightarrow> ownerKind \<Rightarrow> ObjectMeta \<Rightarrow> string \<Rightarrow> 'w \<Rightarrow> (go_error + DNSRecord list) \<times> 'w" where
  "childRecords M K k ob annotation w =
     (case k_List K (m_Namespace ob) w of
        (Inl e, w1) \<Rightarrow> (Inl e, w1)
      | (Inr recs, w1) \<Rightarrow> (childLoop M k ob annotation recs, w1))"

text \<open>The comparison of a wanted record with the one found under its name.\<close>

definition differs :: "DNSRecord \<Rightarrow> DNSRecord \<Rightarrow> bool" where
  "differs v vv \<longleftrightarrow>
     r_Spec v \<noteq> r_Spec vv \<or> m_Annotations (r_Meta v) \<noteq> m_Annotations (r_Meta vv)
     \<or> m_OwnerReferences (r_Meta v) \<noteq> m_OwnerReferences (r_Meta vv)"

abbreviation objName :: "DNSRecord \<Rightarrow> string" where
  "objName r \<equiv> m_Name (r_Meta r)"

definition byName :: "DNSRecord list \<Rightarrow> string \<Rightarrow> DNSRecord option" where
  "byName xs n = find (\<lambda>v. objName v = n) xs"

definition diffAdd :: "DNSRecord list \<Rightarrow> DNSRecord list \<Rightarrow> DNSRecord list" where
  "diffAdd got want = filter (\<lambda>v. byName got (objName v) = None) want"

definition diffUpdate :: "DNSRecord list \<Rightarrow> DNSRecord list \<Rightarrow> DNSRecord list" where
  "diffUpdate got want =
     List.map_filter (\<lambda>v.
       case byName got (objName v) of
         None \<Rightarrow> None
       | Some vv \<Rightarrow> if differs v vv then Some (withRV (m_ResourceVersion (r_Meta vv)) v) else None) want"

definition diffDel :: "DNSRecord list \<Rightarrow> DNSRecord list \<Rightarrow> DNSRecord list" where
  "diffDel got want = filter (\<lambda>v. byName want (objName v) = None) got"

definition diffRecords ::
  "DNSRecord list \<Rightarrow> DNSRecord list \<Rightarrow> DNSRecord list \<times> DNSRecord list \<times> DNSRecord list" where
  "diffRecords got want = (diffAdd got want, diffUpdate got want, diffDel got want)"

text \<open>
  The three write loops: deletion goes on when the object is already gone, and each loop
  stops at its first (other) error.
\<close>

fun deleteAll :: "'w kclient \<Rightarrow> DNSRecord list \<Rightarrow> 'w \<Rightarrow> go_error option \<times> 'w" where
  "deleteAll K [] w = (None, w)"
| "deleteAll K (v # vs) w =
     (case k_Delete K v w of
        (Some e, w1) \<Rightarrow> (case ignoreNotFound e of Some e' \<Rightarrow> (Some e, w1) | None \<Rightarrow> deleteAll K vs w1)
      | (None, w1) \<Rightarrow> deleteAll K vs w1)"

fun writeAll :: "(DNSRecord \<Rightarrow> 'w \<Rightarrow> go_error option \<times> 'w) \<Rightarrow> DNSRecord list \<Rightarrow> 'w \<Rightarrow> go_error option \<times> 'w" where
  "writeAll f [] w = (None, w)"
| "writeAll f (v # vs) w =
     (case f v w of (Some e, w1) \<Rightarrow> (Some e, w1) | (None, w1) \<Rightarrow> writeAll f vs w1)"

definition reconcileChildRecords ::
  "'w kclient \<Rightarrow> DNSRecord list \<Rightarrow> DNSRecord list \<Rightarrow> 'w \<Rightarrow> (Result \<times> go_error option) \<times> 'w" where
  "reconcileChildRecords K got want w =
     (case diffRecords got want of (add, update, del) \<Rightarrow>
        case deleteAll K del w of
          (Some e, w1) \<Rightarrow> ((result0, Some e), w1)
        | (None, w1) \<Rightarrow>
            (case writeAll (k_Create K) add w1 of
               (Some e, w2) \<Rightarrow> ((result0, Some e), w2)
             | (None, w2) \<Rightarrow>
                 (case writeAll (k_Update K) update w2 of (e, w3) \<Rightarrow> ((result0, e), w3))))"

definition extractValue :: "owners \<Rightarrow> string \<Rightarrow> string \<Rightarrow> ObjectMeta \<Rightarrow> string list" where
  "extractValue M apiVersion kind m =
     (case getControllerOf M m of
        None \<Rightarrow> []
      | Some owner \<Rightarrow>
          if or_APIVersion owner \<noteq> apiVersion \<or> or_Kind owner \<noteq> kind then [] else [or_Name owner])"

text \<open>Shared by both reconcilers: the TTL annotation and the addresses of the load balancer.\<close>

definition annotationTTL :: "(string, string) fmap \<Rightarrow> u32" where
  "annotationTTL a =
     (case fmlookup a TTLAnnotation of
        None \<Rightarrow> 0
      | Some v \<Rightarrow> (case parseUint32 v of Inl _ \<Rightarrow> 0 | Inr i \<Rightarrow> ucast i))"

definition nonEmpty :: "string list \<Rightarrow> string list" where
  "nonEmpty ips = filter (\<lambda>v. v \<noteq> []) ips"

section \<open>Lemmas\<close>

lemma byName_None: "byName xs n = None \<longleftrightarrow> n \<notin> objName ` set xs"
  by (auto simp: byName_def find_None_iff)

lemma byName_Some: "byName xs n = Some v \<Longrightarrow> v \<in> set xs \<and> objName v = n"
  by (auto simp: byName_def find_Some_iff in_set_conv_nth)

lemma byName_distinct: "distinct (map objName xs) \<Longrightarrow> v \<in> set xs \<Longrightarrow> byName xs (objName v) = Some v"
  by (induction xs) (auto simp: byName_def)

lemma withRV_differs [simp]:
  "differs (withRV rv v) u = differs v u" "differs v (withRV rv u) = differs v u"
  by (simp_all add: differs_def withRV_def)

lemma differs_server [simp]:
  "differs v (serverUpdate r0 v) = False" "differs v (serverCreate uid v) = False"
  by (simp_all add: differs_def serverUpdate_def serverCreate_def)

lemma set_diffUpdate:
  "u \<in> set (diffUpdate got want) \<longleftrightarrow>
     (\<exists>v \<in> set want. \<exists>vv. byName got (objName v) = Some vv \<and> differs v vv
        \<and> u = withRV (m_ResourceVersion (r_Meta vv)) v)"
  by (force simp: diffUpdate_def List.map_filter_def split: option.splits if_splits)

lemma diffUpdate_keys:
  "distinct (map keyOf want) \<Longrightarrow> distinct (map keyOf (diffUpdate got want))"
  by (induction want)
    (auto simp: diffUpdate_def List.map_filter_def split: option.splits)

lemma diffRecords_empty:
  "diffRecords got want = ([], [], []) \<longleftrightarrow>
     objName ` set got = objName ` set want
     \<and> (\<forall>v \<in> set want. \<exists>vv. byName got (objName v) = Some vv \<and> \<not> differs v vv)"
proof -
  have "diffUpdate got want = [] \<longleftrightarrow> (\<forall>u. u \<notin> set (diffUpdate got want))" by auto
  then have "diffUpdate got want = [] \<longleftrightarrow>
      (\<forall>v \<in> set want. \<forall>vv. byName got (objName v) = Some vv \<longrightarrow> \<not> differs v vv)"
    by (auto simp: set_diffUpdate)
  then show ?thesis
    by (auto simp: diffRecords_def diffAdd_def diffDel_def filter_empty_conv byName_None)
      (metis byName_None image_eqI not_None_eq)+
qed

text \<open>The stored object is, for the purposes of the comparison, the wanted one.\<close>

definition matches :: "DNSRecord \<Rightarrow> DNSRecord \<Rightarrow> bool" where
  "matches v u \<longleftrightarrow> keyOf u = keyOf v \<and> \<not> differs v u"

lemma lawful_Create:
  assumes "lawfulCRUD K get" and "get w (keyOf r) = None"
  shows "\<exists>w' u. k_Create K r w = (None, w') \<and> get w' = (get w)(keyOf r \<mapsto> u) \<and> matches r u"
proof -
  obtain w' uid rv where "k_Create K r w = (None, w')"
    "get w' = (get w)(keyOf r \<mapsto> withRV rv (serverCreate uid r))"
    using assms unfolding lawfulCRUD_def by blast
  then show ?thesis by (intro exI [of _ w'] exI [of _ "withRV rv (serverCreate uid r)"]) (simp add: matches_def)
qed

lemma lawful_Update_stays:
  assumes "lawfulCRUD K get" and "get w (keyOf r) = Some r0"
    and "m_ResourceVersion (r_Meta r) = m_ResourceVersion (r_Meta r0)" and "\<not> deletionRequested r0"
  shows "\<exists>w' u. k_Update K r w = (None, w') \<and> get w' = (get w)(keyOf r \<mapsto> u) \<and> matches r u"
proof -
  have s: "lawfulServer K get" using assms(1) by (simp add: lawfulCRUD_def)
  obtain w' rv where "k_Update K r w = (None, w')"
    "get w' = (get w)(keyOf r := if deletionRequested r0 \<and> m_Finalizers (r_Meta r) = []
           then None else Some (withRV rv (serverUpdate r0 r)))"
    using s assms(2,3) by (rule lawful_Update)
  then show ?thesis
    using assms(4) by (intro exI [of _ w'] exI [of _ "withRV rv (serverUpdate r0 r)"]) (simp add: matches_def)
qed

text \<open>The object is gone or waits for its finalizers.\<close>

definition goingAway :: "DNSRecord option \<Rightarrow> bool" where
  "goingAway x = (case x of None \<Rightarrow> True | Some u \<Rightarrow> deletionRequested u)"

lemma lawful_Delete:
  assumes "lawfulCRUD K get" and "get w (keyOf r) = x"
  shows "\<exists>w' e. k_Delete K r w = (e, w') \<and> (e = None \<or> (\<exists>m. e = Some (ApiNotFound m)))
     \<and> (\<forall>k. k \<noteq> keyOf r \<longrightarrow> get w' k = get w k) \<and> goingAway (get w' (keyOf r))"
proof (cases x)
  case None
  then have "k_Delete K r w = (Some (ApiNotFound (m_Name (r_Meta r))), w)"
    using assms unfolding lawfulCRUD_def by blast
  then show ?thesis using None assms(2) by (simp add: goingAway_def)
next
  case (Some y)
  then obtain w' t rv where "k_Delete K r w = (None, w')"
    "get w' = (get w)(keyOf r := if m_Finalizers (r_Meta y) = [] then None else Some (withRV rv (markDeleted t y)))"
    using assms unfolding lawfulCRUD_def by blast
  moreover have "deletionRequested (markDeleted t y)"
    by (simp add: markDeleted_def deletionRequested_def timeIsZero_def)
  ultimately show ?thesis by (auto simp: goingAway_def)
qed

lemma deleteAll_lawful:
  assumes "lawfulCRUD K get"
  shows "\<exists>w'. deleteAll K vs w = (None, w') \<and> (\<forall>k. k \<notin> keyOf ` set vs \<longrightarrow> get w' k = get w k)
     \<and> (\<forall>v \<in> set vs. goingAway (get w' (keyOf v)))"
proof (induction vs arbitrary: w)
  case (Cons v vs)
  obtain w1 e where d: "k_Delete K v w = (e, w1)" "e = None \<or> (\<exists>m. e = Some (ApiNotFound m))"
    "\<And>k. k \<noteq> keyOf v \<Longrightarrow> get w1 k = get w k" "goingAway (get w1 (keyOf v))"
    using lawful_Delete [OF assms refl] by blast
  obtain w2 where w2: "deleteAll K vs w1 = (None, w2)" "\<And>k. k \<notin> keyOf ` set vs \<Longrightarrow> get w2 k = get w1 k"
    "\<And>u. u \<in> set vs \<Longrightarrow> goingAway (get w2 (keyOf u))"
    using Cons.IH by blast
  have "deleteAll K (v # vs) w = (None, w2)"
    using d(1,2) w2(1) by (auto simp: ignoreNotFound_def)
  moreover have "goingAway (get w2 (keyOf v))"
    using d(4) w2(2,3) by (cases "keyOf v \<in> keyOf ` set vs") auto
  ultimately show ?case using d(3) w2(2,3) by auto
qed simp

lemma writeAll_lawful:
  assumes "\<And>v w. pre v (get w (keyOf v)) \<Longrightarrow>
      \<exists>w' u. f v w = (None, w') \<and> get w' = (get w)(keyOf v \<mapsto> u) \<and> matches v u"
    and "distinct (map keyOf vs)" and "\<forall>v \<in> set vs. pre v (get w (keyOf v))"
  shows "\<exists>w'. writeAll f vs w = (None, w') \<and> (\<forall>k. k \<notin> keyOf ` set vs \<longrightarrow> get w' k = get w k)
     \<and> (\<forall>v \<in> set vs. \<exists>u. get w' (keyOf v) = Some u \<and> matches v u)"
  using assms(2,3)
proof (induction vs arbitrary: w)
  case (Cons v vs)
  obtain w1 u where 1: "f v w = (None, w1)" "get w1 = (get w)(keyOf v \<mapsto> u)" "matches v u"
    using assms(1) Cons.prems(2) by (meson list.set_intros(1))
  have "keyOf x \<noteq> keyOf v" if "x \<in> set vs" for x
    using that Cons.prems(1) by (metis distinct.simps(2) image_eqI list.set_map list.simps(9))
  then have p: "\<forall>x \<in> set vs. pre x (get w1 (keyOf x))" using 1(2) Cons.prems(2) by simp
  have d: "distinct (map keyOf vs)" using Cons.prems(1) by simp
  from Cons.IH [OF d p] obtain w2 where 2: "writeAll f vs w1 = (None, w2)" "\<forall>k. k \<notin> keyOf ` set vs \<longrightarrow> get w2 k = get w1 k"
     "\<forall>v \<in> set vs. \<exists>u. get w2 (keyOf v) = Some u \<and> matches v u"
    by (elim exE conjE)
  have "get w2 (keyOf v) = Some u" using 1(2) 2(2) Cons.prems(1) by auto
  with 1 2 show ?case by auto
qed simp

text \<open>
  The situation of a reconciliation: every record of the list is stored as listed, one that
  has to be updated is not being deleted, all wanted records live in the owner's namespace
  under different names, and a wanted name that is not listed is free.
\<close>

definition inSync ::
  "('w \<Rightarrow> NamespacedName \<Rightarrow> DNSRecord option) \<Rightarrow> string \<Rightarrow> DNSRecord list \<Rightarrow> DNSRecord list \<Rightarrow> 'w \<Rightarrow> bool" where
  "inSync get ns got want w \<longleftrightarrow>
     (\<forall>v \<in> set got \<union> set want. m_Namespace (r_Meta v) = ns)
     \<and> distinct (map objName want)
     \<and> (\<forall>v \<in> set got. get w (keyOf v) = Some v)
     \<and> (\<forall>v \<in> set want. byName got (objName v) = None \<longrightarrow> get w (keyOf v) = None)
     \<and> (\<forall>v \<in> set want. \<forall>vv. byName got (objName v) = Some vv \<and> differs v vv \<longrightarrow> \<not> deletionRequested vv)"

lemma keyOf_eq:
  "m_Namespace (r_Meta u) = ns \<Longrightarrow> m_Namespace (r_Meta v) = ns \<Longrightarrow> keyOf u = keyOf v \<longleftrightarrow> objName u = objName v"
  by (simp add: keyOf_def)

lemma distinct_keys:
  "distinct (map objName xs) \<Longrightarrow> \<forall>v \<in> set xs. m_Namespace (r_Meta v) = ns \<Longrightarrow> distinct (map keyOf xs)"
  by (induction xs) (auto simp: keyOf_def)

lemma key_in_image:
  assumes "m_Namespace (r_Meta v) = ns" and "\<forall>u \<in> set xs. m_Namespace (r_Meta u) = ns"
  shows "keyOf v \<in> keyOf ` set xs \<longleftrightarrow> objName v \<in> objName ` set xs"
  using assms by (auto simp: keyOf_def image_iff)

lemma inSync_D:
  assumes "inSync get ns got want w"
  shows "distinct (map keyOf want)"
    "\<And>u v. u \<in> set got \<union> set want \<Longrightarrow> v \<in> set got \<union> set want \<Longrightarrow>
       keyOf u = keyOf v \<longleftrightarrow> objName u = objName v"
    "\<And>v. v \<in> set got \<Longrightarrow> get w (keyOf v) = Some v"
    "\<And>v. v \<in> set want \<Longrightarrow> byName got (objName v) = None \<Longrightarrow> get w (keyOf v) = None"
    "\<And>v vv. v \<in> set want \<Longrightarrow> byName got (objName v) = Some vv \<Longrightarrow> differs v vv \<Longrightarrow> \<not> deletionRequested vv"
proof -
  have ns: "\<forall>v \<in> set got \<union> set want. m_Namespace (r_Meta v) = ns"
    using assms by (simp add: inSync_def)
  then have nsw: "\<forall>v \<in> set want. m_Namespace (r_Meta v) = ns" by simp
  show "distinct (map keyOf want)"
    by (rule distinct_keys [OF _ nsw]) (use assms in \<open>simp add: inSync_def\<close>)
  show "keyOf u = keyOf v \<longleftrightarrow> objName u = objName v"
    if "u \<in> set got \<union> set want" "v \<in> set got \<union> set want" for u v
    using keyOf_eq ns that by blast
qed (use assms in \<open>auto simp: inSync_def\<close>)

lemma sync_delete:
  assumes K: "lawfulCRUD K get" and S: "inSync get ns got want w"
  obtains w1 where "deleteAll K (diffDel got want) w = (None, w1)"
    and "\<forall>v \<in> set want. get w1 (keyOf v) = get w (keyOf v)"
    and "\<forall>v \<in> set got. objName v \<notin> objName ` set want \<longrightarrow> goingAway (get w1 (keyOf v))"
    and "\<forall>k. k \<notin> keyOf ` set got \<longrightarrow> get w1 k = get w k"
proof -
  obtain w1 where 1: "deleteAll K (diffDel got want) w = (None, w1)"
    "\<forall>k. k \<notin> keyOf ` set (diffDel got want) \<longrightarrow> get w1 k = get w k"
    "\<forall>v \<in> set (diffDel got want). goingAway (get w1 (keyOf v))"
    using deleteAll_lawful [OF K] by metis
  have "keyOf v \<notin> keyOf ` set (diffDel got want)" if v: "v \<in> set want" for v
  proof
    assume "keyOf v \<in> keyOf ` set (diffDel got want)"
    then obtain x where "x \<in> set got" "byName want (objName x) = None" "keyOf v = keyOf x"
      by (auto simp: diffDel_def)
    with v inSync_D(2) [OF S, of v x] show False by (auto simp: byName_None) (metis image_eqI)
  qed
  then have keep: "\<forall>v \<in> set want. get w1 (keyOf v) = get w (keyOf v)" using 1(2) by blast
  have "set (diffDel got want) \<subseteq> set got" by (auto simp: diffDel_def)
  then have frame: "\<forall>k. k \<notin> keyOf ` set got \<longrightarrow> get w1 k = get w k" using 1(2) by blast
  have "\<forall>v \<in> set got. objName v \<notin> objName ` set want \<longrightarrow> goingAway (get w1 (keyOf v))"
    using 1(3) by (auto simp: diffDel_def byName_None)
  then show thesis using that [OF 1(1) keep _ frame] by blast
qed

lemma diffAdd_absent: "v \<in> set (diffAdd got want) \<longleftrightarrow> v \<in> set want \<and> byName got (objName v) = None"
  by (auto simp: diffAdd_def)

lemma sync_create:
  assumes K: "lawfulCRUD K get" and S: "inSync get ns got want w"
    and "\<forall>v \<in> set want. get w1 (keyOf v) = get w (keyOf v)"
  obtains w2 where "writeAll (k_Create K) (diffAdd got want) w1 = (None, w2)"
    and "\<forall>v \<in> set (diffAdd got want). \<exists>u. get w2 (keyOf v) = Some u \<and> matches v u"
    and "\<forall>k. k \<notin> keyOf ` set (diffAdd got want) \<longrightarrow> get w2 k = get w1 k"
proof -
  have "\<forall>v \<in> set (diffAdd got want). get w1 (keyOf v) = None"
    using assms(3) inSync_D(4) [OF S] by (simp add: diffAdd_absent)
  moreover have "distinct (map keyOf (diffAdd got want))"
    using inSync_D(1) [OF S] by (simp add: diffAdd_def distinct_map_filter)
  ultimately show thesis
    using writeAll_lawful [of "\<lambda>v x. x = None" get "k_Create K" "diffAdd got want" w1]
      lawful_Create [OF K] that by blast
qed

text \<open>What an entry of the update list comes from.\<close>

lemma diffUpdate_source:
  assumes S: "inSync get ns got want w" and "u \<in> set (diffUpdate got want)"
  obtains v vv where "v \<in> set want" and "byName got (objName v) = Some vv" and "differs v vv"
    and "keyOf u = keyOf v" and "get w (keyOf u) = Some vv" and "\<not> deletionRequested vv"
    and "m_ResourceVersion (r_Meta u) = m_ResourceVersion (r_Meta vv)"
    and "\<And>x. differs u x = differs v x"
proof -
  obtain v vv where v: "v \<in> set want" "byName got (objName v) = Some vv" "differs v vv"
    "u = withRV (m_ResourceVersion (r_Meta vv)) v"
    using assms(2) by (auto simp: set_diffUpdate)
  then have vv: "vv \<in> set got" "objName vv = objName v" using byName_Some by blast+
  then have "keyOf vv = keyOf v" using inSync_D(2) [OF S] v(1) by blast
  then show thesis using that [OF v(1-3)] inSync_D(3) [OF S vv(1)] inSync_D(5) [OF S v(1-3)] v(4) by simp
qed

lemma sync_update:
  assumes K: "lawfulCRUD K get" and S: "inSync get ns got want w"
    and "\<forall>v \<in> set want. byName got (objName v) \<noteq> None \<longrightarrow> get w2 (keyOf v) = get w (keyOf v)"
  obtains w3 where "writeAll (k_Update K) (diffUpdate got want) w2 = (None, w3)"
    and "\<forall>v \<in> set (diffUpdate got want). \<exists>u. get w3 (keyOf v) = Some u \<and> matches v u"
    and "\<forall>k. k \<notin> keyOf ` set (diffUpdate got want) \<longrightarrow> get w3 k = get w2 k"
proof -
  have "\<exists>x. get w2 (keyOf u) = Some x \<and> \<not> deletionRequested x
      \<and> m_ResourceVersion (r_Meta u) = m_ResourceVersion (r_Meta x)"
    if u: "u \<in> set (diffUpdate got want)" for u
    using diffUpdate_source [OF S u] assms(3) by (metis option.distinct(1))
  then show thesis
    using writeAll_lawful [of "\<lambda>v x. \<exists>y. x = Some y \<and> \<not> deletionRequested y
        \<and> m_ResourceVersion (r_Meta v) = m_ResourceVersion (r_Meta y)" get "k_Update K" "diffUpdate got want" w2]
      lawful_Update_stays [OF K] diffUpdate_keys [OF inSync_D(1) [OF S]] that by blast
qed

lemma sync_wanted:
  assumes S: "inSync get ns got want w" and v: "v \<in> set want"
    and c: "\<forall>v \<in> set (diffAdd got want). \<exists>u. get w2 (keyOf v) = Some u \<and> matches v u"
    and u: "\<forall>v \<in> set (diffUpdate got want). \<exists>u. get w3 (keyOf v) = Some u \<and> matches v u"
    and f3: "\<forall>k. k \<notin> keyOf ` set (diffUpdate got want) \<longrightarrow> get w3 k = get w2 k"
    and g: "byName got (objName v) \<noteq> None \<longrightarrow> get w2 (keyOf v) = get w (keyOf v)"
  shows "\<exists>u. get w3 (keyOf v) = Some u \<and> matches v u"
proof (cases "keyOf v \<in> keyOf ` set (diffUpdate got want)")
  case True
  then obtain x where x: "x \<in> set (diffUpdate got want)" "keyOf x = keyOf v" by auto
  then obtain y vv where y: "y \<in> set want" "keyOf x = keyOf y" "\<And>z. differs x z = differs y z"
    using diffUpdate_source [OF S x(1)] by metis
  then have "y = v" using x(2) v inSync_D(1) [OF S] by (metis distinct_map inj_onD)
  then show ?thesis using u x y(3) by (auto simp: matches_def)
next
  case False
  then have eq: "get w3 (keyOf v) = get w2 (keyOf v)" using f3 by blast
  show ?thesis
  proof (cases "byName got (objName v)")
    case None
    then show ?thesis using c v eq by (simp add: diffAdd_absent)
  next
    case (Some vv)
    have "keyOf v = keyOf (withRV (m_ResourceVersion (r_Meta vv)) v)" by simp
    then have "\<not> differs v vv" using False v Some by (metis image_eqI set_diffUpdate)
    moreover have "keyOf vv = keyOf v" using inSync_D(2) [OF S] byName_Some [OF Some] v by blast
    moreover have "get w (keyOf vv) = Some vv" using inSync_D(3) [OF S] byName_Some [OF Some] by blast
    ultimately show ?thesis using eq g Some by (simp add: matches_def)
  qed
qed

lemma child_sync:
  assumes K: "lawfulCRUD K get" and S: "inSync get ns got want w"
  shows "\<exists>w'. reconcileChildRecords K got want w = ((result0, None), w')
     \<and> (\<forall>v \<in> set want. \<exists>u. get w' (keyOf v) = Some u \<and> matches v u)
     \<and> (\<forall>v \<in> set got. objName v \<notin> objName ` set want \<longrightarrow> goingAway (get w' (keyOf v)))
     \<and> (\<forall>k. k \<notin> keyOf ` (set got \<union> set want) \<longrightarrow> get w' k = get w k)"
proof -
  obtain w1 where 1: "deleteAll K (diffDel got want) w = (None, w1)"
    "\<forall>v \<in> set want. get w1 (keyOf v) = get w (keyOf v)"
    "\<forall>v \<in> set got. objName v \<notin> objName ` set want \<longrightarrow> goingAway (get w1 (keyOf v))"
    "\<forall>k. k \<notin> keyOf ` set got \<longrightarrow> get w1 k = get w k"
    using K S by (rule sync_delete)
  obtain w2 where 2: "writeAll (k_Create K) (diffAdd got want) w1 = (None, w2)"
    "\<forall>v \<in> set (diffAdd got want). \<exists>u. get w2 (keyOf v) = Some u \<and> matches v u"
    "\<forall>k. k \<notin> keyOf ` set (diffAdd got want) \<longrightarrow> get w2 k = get w1 k"
    using K S 1(2) by (rule sync_create)
  have "keyOf v \<notin> keyOf ` set (diffAdd got want)" if "v \<in> set want" "byName got (objName v) \<noteq> None" for v
    using that inSync_D(2) [OF S] by (auto simp: diffAdd_absent)
  then have g: "\<forall>v \<in> set want. byName got (objName v) \<noteq> None \<longrightarrow> get w2 (keyOf v) = get w (keyOf v)"
    using 1(2) 2(3) by simp
  obtain w3 where 3: "writeAll (k_Update K) (diffUpdate got want) w2 = (None, w3)"
    "\<forall>v \<in> set (diffUpdate got want). \<exists>u. get w3 (keyOf v) = Some u \<and> matches v u"
    "\<forall>k. k \<notin> keyOf ` set (diffUpdate got want) \<longrightarrow> get w3 k = get w2 k"
    using K S g by (rule sync_update)
  have r: "reconcileChildRecords K got want w = ((result0, None), w3)"
    using 1(1) 2(1) 3(1) by (simp add: reconcileChildRecords_def diffRecords_def)
  have sub: "keyOf ` set (diffAdd got want) \<subseteq> keyOf ` set want" by (auto simp: diffAdd_absent)
  have sub': "keyOf ` set (diffUpdate got want) \<subseteq> keyOf ` set want"
    using diffUpdate_source [OF S] by (metis image_eqI image_subsetI)
  have away: "goingAway (get w3 (keyOf v))" if v: "v \<in> set got" "objName v \<notin> objName ` set want" for v
  proof -
    have "keyOf v \<notin> keyOf ` set want" using v inSync_D(2) [OF S, of v] by auto
    then have "get w3 (keyOf v) = get w1 (keyOf v)" using sub sub' 2(3) 3(3) by (metis subsetD)
    then show ?thesis using 1(3) v by simp
  qed
  have frame: "get w3 k = get w k" if "k \<notin> keyOf ` (set got \<union> set want)" for k
    using that sub sub' 1(4) 2(3) 3(3) by (metis UnCI image_Un subsetD)
  show ?thesis
    using r away frame sync_wanted [OF S _ 2(2) 3(2,3)] g by blast
qed

text \<open>The log of the three loops.\<close>

text \<open>
  What a loop asked for when it ends with \<open>e\<close>: all of the planned writes if there was no
  error, otherwise a prefix that ends with the refused one.
\<close>

definition performed :: "kwrite list \<Rightarrow> go_error option \<Rightarrow> kwrite list \<Rightarrow> bool" where
  "performed plan e ws \<longleftrightarrow>
     (\<exists>n \<le> length plan. ws = take n plan \<and> (e = None \<longrightarrow> n = length plan) \<and> (e \<noteq> None \<longrightarrow> 0 < n))"

lemma performed_None [simp]: "performed plan None ws \<longleftrightarrow> ws = plan"
  by (auto simp: performed_def)

lemma performed_first: "performed [c] e [c]"
  by (auto simp: performed_def intro!: exI [of _ 1])

lemma performed_then: "performed ys e ws \<Longrightarrow> performed (xs @ ys) e (xs @ ws)"
proof -
  assume "performed ys e ws"
  then obtain n where "n \<le> length ys" "ws = take n ys" "e = None \<longrightarrow> n = length ys" "e \<noteq> None \<longrightarrow> 0 < n"
    by (auto simp: performed_def)
  then show ?thesis unfolding performed_def by (intro exI [of _ "length xs + n"]) simp
qed

lemma performed_stop: "performed xs (Some e) ws \<Longrightarrow> performed (xs @ ys) (Some e) ws"
  unfolding performed_def by (elim exE conjE, rule_tac x = n in exI) simp

lemma performed_idle: "performed plan e ws \<Longrightarrow> ws = [] \<longleftrightarrow> plan = []"
  by (auto simp: performed_def)

lemma deleteAll_log:
  "deleteAll (logK K) vs (w, l) = (e, (w', l')) \<Longrightarrow> \<exists>ws. l' = l @ ws \<and> performed (map KDelete vs) e ws"
proof (induction vs arbitrary: w l)
  case (Cons v vs)
  obtain e1 w1 where d: "k_Delete K v w = (e1, w1)" by fastforce
  show ?case
  proof (cases "\<exists>x. e1 = Some x \<and> ignoreNotFound x \<noteq> None")
    case True
    then obtain x where "l' = l @ [KDelete v]" "e = Some x" using Cons.prems d by auto
    then show ?thesis using performed_stop [of "[KDelete v]" x "[KDelete v]" "map KDelete vs"] performed_first by auto
  next
    case False
    then have "deleteAll (logK K) vs (w1, l @ [KDelete v]) = (e, (w', l'))"
      using Cons.prems d by (cases e1) auto
    from Cons.IH [OF this] show ?thesis
      using performed_then [of "map KDelete vs" e _ "[KDelete v]"] by auto
  qed
qed simp

lemma writeAll_log:
  "writeAll (logged f (\<lambda>v. [mk v])) vs (w, l) = (e, (w', l')) \<Longrightarrow> \<exists>ws. l' = l @ ws \<and> performed (map mk vs) e ws"
proof (induction vs arbitrary: w l)
  case (Cons v vs)
  obtain e1 w1 where d: "f v w = (e1, w1)" by fastforce
  show ?case
  proof (cases e1)
    case (Some x)
    then have "l' = l @ [mk v]" "e = Some x" using Cons.prems d by auto
    then show ?thesis using performed_stop [of "[mk v]" x "[mk v]" "map mk vs"] performed_first by auto
  next
    case None
    then have "writeAll (logged f (\<lambda>v. [mk v])) vs (w1, l @ [mk v]) = (e, (w', l'))"
      using Cons.prems d by auto
    from Cons.IH [OF this] show ?thesis using performed_then [of "map mk vs" e _ "[mk v]"] by auto
  qed
qed simp

text \<open>The writes of a pass, in order.\<close>

definition childPlan :: "DNSRecord list \<Rightarrow> DNSRecord list \<Rightarrow> kwrite list" where
  "childPlan got want =
     map KDelete (filter (\<lambda>v. objName v \<notin> objName ` set want) got)
     @ map KCreate (filter (\<lambda>v. objName v \<notin> objName ` set got) want)
     @ map KUpdate (diffUpdate got want)"

lemma childPlan_loops:
  "childPlan got want = map KDelete (diffDel got want) @ map KCreate (diffAdd got want) @ map KUpdate (diffUpdate got want)"
  by (simp add: childPlan_def diffDel_def diffAdd_def byName_None)

lemma childPlan_empty: "childPlan got want = [] \<longleftrightarrow> diffRecords got want = ([], [], [])"
  by (auto simp: childPlan_loops diffRecords_def)

lemma reconcileChildRecords_log:
  assumes "reconcileChildRecords (logK K) got want (w, l) = ((res, e), (w', l'))"
  shows "\<exists>ws. l' = l @ ws \<and> performed (childPlan got want) e ws"
proof -
  obtain e1 w1 l1 where d: "deleteAll (logK K) (diffDel got want) (w, l) = (e1, (w1, l1))"
    by (metis prod_cases3)
  obtain a where a: "l1 = l @ a" "performed (map KDelete (diffDel got want)) e1 a" using deleteAll_log [OF d] by blast
  obtain e2 w2 l2 where c: "writeAll (logged (k_Create K) (\<lambda>r. [KCreate r])) (diffAdd got want) (w1, l1) = (e2, (w2, l2))"
    by (metis prod_cases3)
  obtain b where b: "l2 = l1 @ b" "performed (map KCreate (diffAdd got want)) e2 b" using writeAll_log [OF c] by blast
  obtain e3 w3 l3 where u: "writeAll (logged (k_Update K) (\<lambda>r. [KUpdate r])) (diffUpdate got want) (w2, l2) = (e3, (w3, l3))"
    by (metis prod_cases3)
  obtain z where z: "l3 = l2 @ z" "performed (map KUpdate (diffUpdate got want)) e3 z" using writeAll_log [OF u] by blast
  note r = assms [unfolded reconcileChildRecords_def diffRecords_def]
  show ?thesis
  proof (cases e1)
    case (Some x)
    then show ?thesis
      using r d a performed_stop [of "map KDelete (diffDel got want)" x a] unfolding childPlan_loops
      by (intro exI [of _ a]) auto
  next
    case None
    show ?thesis
    proof (cases e2)
      case (Some x)
      then show ?thesis
        using r d c None a b performed_then [OF performed_stop, of "map KCreate (diffAdd got want)" x b]
        unfolding childPlan_loops by (intro exI [of _ "a @ b"]) auto
    next
      case None
      then show ?thesis
        using r d c u \<open>e1 = None\<close> a b z performed_then [OF performed_then, of "map KUpdate (diffUpdate got want)" e3 z]
        unfolding childPlan_loops by (intro exI [of _ "a @ b @ z"]) auto
    qed
  qed
qed

lemma matches_settled:
  assumes "\<forall>v \<in> set want. \<exists>u. get w (keyOf v) = Some u \<and> matches v u" and "distinct (map objName want)"
  shows "diffRecords (map (\<lambda>v. the (get w (keyOf v))) want) want = ([], [], [])"
proof -
  let ?f = "\<lambda>v. the (get w (keyOf v))"
  have m: "matches v (?f v)" "objName (?f v) = objName v" if "v \<in> set want" for v
  proof -
    obtain u where "get w (keyOf v) = Some u" "matches v u" using assms(1) \<open>v \<in> set want\<close> by blast
    then show "matches v (?f v)" by simp
    then show "objName (?f v) = objName v" by (simp add: matches_def keyOf_def)
  qed
  then have n: "map objName (map ?f want) = map objName want" by simp
  have "byName (map ?f want) (objName v) = Some (?f v)" if "v \<in> set want" for v
    using byName_distinct [of "map ?f want" "?f v"] assms(2) m that unfolding n by auto
  moreover have "objName ` set (map ?f want) = objName ` set want"
    using n by (metis list.set_map)
  moreover have "\<not> differs v (?f v)" if "v \<in> set want" for v
    using m(1) [OF that] by (simp add: matches_def)
  ultimately show ?thesis unfolding diffRecords_empty by blast
qed

lemma itoa_recordName: "recordName n k h i = recordName n k h j \<longleftrightarrow> i = j"
  using itoa_inj by (auto simp: recordName_def)

section \<open>Example objects\<close>

definition exListed :: DNSRecord where
  "exListed = exRecord\<lparr>r_Meta := (r_Meta exRecord)\<lparr>m_Name := ''old''\<rparr>\<rparr>"

section \<open>Properties\<close>

text \<open>
  C6. The children after one successful pass. Assume an API server that works, listed and
  wanted records of one namespace, wanted records with different object names, listed
  records that are stored as listed, wanted names that are listed or free (not held by an
  object that is not a child), and no pending deletion of a listed record that has to be
  updated. Then the pass ends without error; every wanted record is stored with the wanted
  spec, annotations and owner; every listed record that is no longer wanted is gone or
  going; every other object of the cluster is as before; and a second pass over the result
  finds nothing to do.
\<close>

theorem children_synced:
  assumes "lawfulCRUD K get"
    and "\<forall>v \<in> set got \<union> set want. m_Namespace (r_Meta v) = ns"
    and "distinct (map objName want)"
    and "\<forall>v \<in> set got. get w (keyOf v) = Some v"
    and "\<forall>v \<in> set want. byName got (objName v) = None \<longrightarrow> get w (keyOf v) = None"
    and "\<forall>v \<in> set want. \<forall>vv. byName got (objName v) = Some vv \<and> differs v vv \<longrightarrow> \<not> deletionRequested vv"
  shows "\<exists>w'. reconcileChildRecords K got want w = ((result0, None), w')
     \<and> (\<forall>v \<in> set want. \<exists>u. get w' (keyOf v) = Some u \<and> matches v u)
     \<and> (\<forall>v \<in> set got. objName v \<notin> objName ` set want \<longrightarrow> goingAway (get w' (keyOf v)))
     \<and> (\<forall>k. k \<notin> keyOf ` (set got \<union> set want) \<longrightarrow> get w' k = get w k)
     \<and> diffRecords (map (\<lambda>v. the (get w' (keyOf v))) want) want = ([], [], [])"
proof -
  have S: "inSync get ns got want w" using assms(2-6) by (simp add: inSync_def)
  from child_sync [OF assms(1) S] show ?thesis
  proof (elim exE conjE, intro exI conjI)
    fix w'
    assume "\<forall>v \<in> set want. \<exists>u. get w' (keyOf v) = Some u \<and> matches v u"
    then show "diffRecords (map (\<lambda>v. the (get w' (keyOf v))) want) want = ([], [], [])"
      using assms(3) by (rule matches_settled)
  qed
qed

text \<open>One listed record has to be changed, one wanted record is new.\<close>

theorem children_synced_witness:
  "\<exists>w'. reconcileChildRecords memK [exListed] [exListed\<lparr>r_Spec := emptySpec\<rparr>, exRecord] ([exListed], ()) = ((result0, None), w')
     \<and> (\<exists>u. memGet w' (keyOf exRecord) = Some u \<and> matches exRecord u)
     \<and> (\<exists>u. memGet w' (keyOf exListed) = Some u \<and> r_Spec u = emptySpec)"
proof -
  let ?v = "exListed\<lparr>r_Spec := emptySpec\<rparr>"
  have n: "objName exListed = ''old''" "objName ?v = ''old''" "objName exRecord \<noteq> ''old''" "keyOf ?v = keyOf exListed"
    by (simp_all add: exListed_def exRecord_def emptyMeta_def keyOf_def)
  have h: "\<forall>v \<in> set [exListed] \<union> set [?v, exRecord]. m_Namespace (r_Meta v) = ''default''"
    "distinct (map objName [?v, exRecord])"
    "\<forall>v \<in> set [exListed]. memGet ([exListed], ()) (keyOf v) = Some v"
    "\<forall>v \<in> set [?v, exRecord]. byName [exListed] (objName v) = None \<longrightarrow> memGet ([exListed], ()) (keyOf v) = None"
    "\<forall>v \<in> set [?v, exRecord]. \<forall>vv. byName [exListed] (objName v) = Some vv \<and> differs v vv \<longrightarrow> \<not> deletionRequested vv"
    using n by (auto simp: byName_def memGet_def keyOf_def exListed_def exRecord_def emptyMeta_def deletionRequested_def
        timeIsZero_def)
  from children_synced [OF memK_CRUD h] show ?thesis
    using n(4) by (auto simp: matches_def differs_def)
qed

text \<open>
  C21. The writes of a pass, whatever the server answers. They are, in this order, deletions of
  the listed records whose name is not wanted, creations of the wanted records whose name is
  not listed, and updates of the wanted records that differ from the listed one of that name,
  with the listed record's resource version: all of them if the pass ends without an error,
  and otherwise those up to and including one that was refused. A pass writes nothing exactly
  when the two lists hold the same names and every wanted record agrees with the listed one
  in spec, annotations and owner references.
\<close>

theorem children_writes:
  "let plan = map KDelete (filter (\<lambda>v. objName v \<notin> objName ` set want) got)
              @ map KCreate (filter (\<lambda>v. objName v \<notin> objName ` set got) want)
              @ map KUpdate (diffUpdate got want);
       out = reconcileChildRecords (logK K) got want (w, l)
   in \<exists>n ws. snd (snd out) = l @ ws \<and> ws = take n plan
        \<and> (if snd (fst out) = None then n = length plan else 0 < n \<and> n \<le> length plan)
        \<and> (ws = [] \<longleftrightarrow> objName ` set got = objName ` set want
             \<and> list_all (\<lambda>v. \<exists>vv. byName got (objName v) = Some vv \<and> \<not> differs v vv) want)"
proof -
  obtain res e w' l' where r: "reconcileChildRecords (logK K) got want (w, l) = ((res, e), (w', l'))"
    by (metis prod_cases4 prod.collapse)
  obtain ws where ws: "l' = l @ ws" "performed (childPlan got want) e ws"
    using reconcileChildRecords_log [OF r] by blast
  then obtain n where n: "n \<le> length (childPlan got want)" "ws = take n (childPlan got want)"
    "e = None \<longrightarrow> n = length (childPlan got want)" "e \<noteq> None \<longrightarrow> 0 < n"
    by (auto simp: performed_def)
  have "ws = [] \<longleftrightarrow> objName ` set got = objName ` set want
      \<and> list_all (\<lambda>v. \<exists>vv. byName got (objName v) = Some vv \<and> \<not> differs v vv) want"
    using performed_idle [OF ws(2)] diffRecords_empty [of got want] by (simp add: childPlan_empty list_all_iff)
  then show ?thesis
    using r ws(1) n unfolding Let_def childPlan_def [symmetric] by (intro exI [of _ n] exI [of _ ws]) simp
qed

text \<open>
  C24. An update replaces the whole object by the freshly built one, which has no finalizers.
  A child with a pending deletion therefore disappears at once, without the provider having
  removed its record: on a lawful server the object is gone although its status was bound.
\<close>

theorem update_drops_finalizer:
  assumes "lawfulServer K get" and "get w (keyOf vv) = Some vv" and "deletionRequested vv"
    and "keyOf v = keyOf vv" and "differs v vv" and "m_Finalizers (r_Meta v) = []"
  shows "\<exists>w'. reconcileChildRecords K [vv] [v] w = ((result0, None), w') \<and> get w' (keyOf vv) = None"
proof -
  let ?u = "withRV (m_ResourceVersion (r_Meta vv)) v"
  have n: "objName v = objName vv" using assms(4) by (simp add: keyOf_def)
  have k: "get w (keyOf ?u) = Some vv" "m_ResourceVersion (r_Meta ?u) = m_ResourceVersion (r_Meta vv)"
    using assms(2,4) by simp_all
  obtain w' rv where w': "k_Update K ?u w = (None, w')"
    "get w' = (get w)(keyOf ?u := if deletionRequested vv \<and> m_Finalizers (r_Meta ?u) = []
       then None else Some (withRV rv (serverUpdate vv ?u)))"
    using assms(1) k by (rule lawful_Update)
  have "diffRecords [vv] [v] = ([], [?u], [])"
    using n assms(5) by (simp add: diffRecords_def diffAdd_def diffUpdate_def diffDel_def byName_def
        List.map_filter_def)
  then show ?thesis using w' assms(3,4,6) by (simp add: reconcileChildRecords_def)
qed

definition exGoing :: DNSRecord where
  "exGoing = exRecord\<lparr>r_Meta := (r_Meta exRecord)\<lparr>m_DeletionTimestamp := Some 1,
      m_Finalizers := [''dns.linka.cloud/finalizer'']\<rparr>,
      r_Status := emptyStatus\<lparr>st_Provider := ''mem'', st_ID := ''x''\<rparr>\<rparr>"

definition exNewTarget :: DNSRecord where
  "exNewTarget = exRecord\<lparr>r_Spec := emptySpec\<lparr>sp_A := Some (exA\<lparr>a_Target := ''10.0.0.2''\<rparr>)\<rparr>\<rparr>"

theorem update_drops_finalizer_witness:
  "\<exists>w'. reconcileChildRecords memK [exGoing] [exNewTarget] ([exGoing], ()) = ((result0, None), w')
     \<and> memGet w' (keyOf exGoing) = None"
proof -
  have g: "memGet ([exGoing], ()) (keyOf exGoing) = Some exGoing" by (simp add: memGet_def)
  have d: "deletionRequested exGoing" "m_Finalizers (r_Meta exNewTarget) = []" "keyOf exNewTarget = keyOf exGoing"
    by (simp_all add: deletionRequested_def exGoing_def exNewTarget_def timeIsZero_def exRecord_def
        emptyMeta_def keyOf_def)
  have f: "differs exNewTarget exGoing"
    by (simp add: differs_def exNewTarget_def exGoing_def exRecord_def exA_def emptySpec_def)
  show ?thesis using update_drops_finalizer [OF memK_lawful g d(1,3) f d(2)] .
qed

text \<open>
  Object names of children: the index keeps the records of one host apart, but the
  replacement of dots does not keep hosts apart, so that two hosts of one Ingress can ask
  for the same object.
\<close>

lemma recordName_collisions:
  "(recordName n k h i = recordName n k h j \<longleftrightarrow> i = j)
   \<and> recordName n k (a @ ''.'' @ b) i = recordName n k (a @ ''-'' @ b) i
   \<and> recordName n k (a @ ''*'' @ b) i = recordName n k (a @ ''wildcard'' @ b) i"
  by (simp add: itoa_recordName) (simp add: recordName_def hostByte_def)

text \<open>
  C35. The TTL annotation is used exactly when it is a decimal number below two to the 32,
  and then with its value; anything else counts as zero, which defaulting turns into 3600.
\<close>

theorem annotationTTL_value:
  "unat (annotationTTL a) =
     (case fmlookup a TTLAnnotation of
        None \<Rightarrow> 0
      | Some s \<Rightarrow> (case decValue s 0 of
                     None \<Rightarrow> 0
                   | Some n \<Rightarrow> if s \<noteq> [] \<and> n < 2 ^ 32 then n else 0))"
proof (cases "fmlookup a TTLAnnotation")
  case (Some s)
  show ?thesis
  proof (cases "parseUint32 s")
    case (Inl e)
    have "\<not> (s \<noteq> [] \<and> n < 2 ^ 32)" if "decValue s 0 = Some n" for n
    proof
      assume c: "s \<noteq> [] \<and> n < 2 ^ 32"
      then have "unat (of_nat n :: u64) = n" by (simp add: unat_of_nat)
      then have "parseUint32 s = Inr (of_nat n)" using c that by (simp add: parseUint32_iff)
      with Inl show False by simp
    qed
    with Some Inl show ?thesis by (auto simp: annotationTTL_def split: option.splits)
  next
    case (Inr x)
    then have "annotationTTL a = ucast x" using Some by (simp add: annotationTTL_def)
    then show ?thesis
      using Some unat_ucast_parseUint32 [OF Inr] Inr by (simp add: parseUint32_iff)
  qed
qed (simp add: annotationTTL_def)

end
