(* ===== verification/Owner_Controllers.thy ===== *)
theory Owner_Controllers
  imports Child_Records Webhook
begin

text \<open>
  Components \<^verbatim>\<open>controllers/service_controller.go\<close> and
  \<^verbatim>\<open>controllers/ingress_controller.go\<close>: the reconcilers that keep one A record per address
  and host of a load-balanced Service or an Ingress, and the event filter of the Service
  controller.
\<close>

section \<open>Definitions\<close>

text \<open>What the reconcilers read of the two objects: metadata, the service type, the hosts of
  the rules, and the addresses of the load balancer (empty where it has a host name).\<close>

record Service =
  svc_Meta :: ObjectMeta
  svc_Type :: string
  svc_IPs :: "string list"

record Ingress =
  ing_Meta :: ObjectMeta
  ing_Hosts :: "string list"
  ing_IPs :: "string list"

definition ServiceTypeLoadBalancer :: string where
  "ServiceTypeLoadBalancer = ''LoadBalancer''"

text \<open>The record literal, its defaults and its owner.\<close>

definition childRecord ::
  "ext \<Rightarrow> owners \<Rightarrow> ownerKind \<Rightarrow> ObjectMeta \<Rightarrow> string \<Rightarrow> string \<Rightarrow> string \<Rightarrow> u32 \<Rightarrow> nat \<Rightarrow> string
     \<Rightarrow> go_error + DNSRecord" where
  "childRecord E M k ob annotation short host ttl i ip =
     (let r = Default E
        \<lparr>r_TypeMeta = \<lparr>t_APIVersion = [], t_Kind = []\<rparr>,
         r_Meta = emptyMeta\<lparr>m_Name := recordName (m_Name ob) short host i,
                            m_Namespace := m_Namespace ob,
                            m_Annotations := Some (fmupd annotation (m_Name ob) fmempty)\<rparr>,
         r_Spec = emptySpec\<lparr>sp_A := Some \<lparr>a_Name = host, a_Class = 0, a_Ttl = ttl, a_Target = ip\<rparr>\<rparr>,
         r_Status = emptyStatus\<rparr>
      in case setControllerReference M k ob (r_Meta r) of
           Inl e \<Rightarrow> Inl e
         | Inr m \<Rightarrow> Inr (r\<lparr>r_Meta := m\<rparr>))"

text \<open>The inner loop over the addresses, with the index.\<close>

fun wantLoop :: "(nat \<Rightarrow> string \<Rightarrow> go_error + DNSRecord) \<Rightarrow> nat \<Rightarrow> string list \<Rightarrow> go_error + DNSRecord list" where
  "wantLoop f i [] = Inr []"
| "wantLoop f i (ip # ips) =
     (case f i ip of
        Inl e \<Rightarrow> Inl e
      | Inr r \<Rightarrow> map_sum id (\<lambda>l. r # l) (wantLoop f (Suc i) ips))"

definition deleteChildren :: "'w kclient \<Rightarrow> DNSRecord list \<Rightarrow> 'w \<Rightarrow> (Result \<times> go_error option) \<times> 'w" where
  "deleteChildren K got w = (case deleteAll K got w of (e, w1) \<Rightarrow> ((result0, e), w1))"

definition serviceHostname :: "ext \<Rightarrow> Service \<Rightarrow> string" where
  "serviceHostname E svc =
     (let hostname = (case fmlookup (annotations (svc_Meta svc)) HostnameAnnotation of None \<Rightarrow> [] | Some v \<Rightarrow> v)
      in if hostname \<noteq> [] \<and> (case pslDomain E hostname of Inl _ \<Rightarrow> True | Inr _ \<Rightarrow> False) then [] else hostname)"

definition serviceWithdrawn :: "ext \<Rightarrow> Service \<Rightarrow> bool" where
  "serviceWithdrawn E svc \<longleftrightarrow>
     fmlookup (annotations (svc_Meta svc)) IgnoredAnnotation \<noteq> None
     \<or> svc_Type svc \<noteq> ServiceTypeLoadBalancer \<or> serviceHostname E svc = []"

definition serviceWant :: "ext \<Rightarrow> owners \<Rightarrow> Service \<Rightarrow> go_error + DNSRecord list" where
  "serviceWant E M svc =
     wantLoop (childRecord E M ServiceKind (svc_Meta svc) ServiceAnnotation ''svc'' (serviceHostname E svc)
                 (annotationTTL (annotations (svc_Meta svc)))) 0 (nonEmpty (svc_IPs svc))"

definition serviceReconcile ::
  "ext \<Rightarrow> owners \<Rightarrow> 'w kclient \<Rightarrow> (NamespacedName \<Rightarrow> 'w \<Rightarrow> (go_error + Service) \<times> 'w) \<Rightarrow> NamespacedName
     \<Rightarrow> 'w \<Rightarrow> (Result \<times> go_error option) \<times> 'w" where
  "serviceReconcile E M K getSvc req w =
     (case getSvc req w of
        (Inl e, w1) \<Rightarrow> ((result0, ignoreNotFound e), w1)
      | (Inr svc, w1) \<Rightarrow>
          (case k_List K (nn_Namespace req) w1 of
             (Inl e, w2) \<Rightarrow> ((result0, Some e), w2)
           | (Inr _, w2) \<Rightarrow>
               (case childRecords M K ServiceKind (svc_Meta svc) ServiceAnnotation w2 of
                  (Inl e, w3) \<Rightarrow> ((result0, Some e), w3)
                | (Inr got, w3) \<Rightarrow>
                    if serviceWithdrawn E svc then deleteChildren K got w3
                    else (case serviceWant E M svc of
                            Inl e \<Rightarrow> ((result0, Some e), w3)
                          | Inr want \<Rightarrow> reconcileChildRecords K got want w3))))"

text \<open>The outer loop of the Ingress reconciler: rules without a host are skipped.\<close>

fun ingressWantLoop ::
  "(string \<Rightarrow> nat \<Rightarrow> string \<Rightarrow> go_error + DNSRecord) \<Rightarrow> string list \<Rightarrow> string list \<Rightarrow> go_error + DNSRecord list" where
  "ingressWantLoop f ips [] = Inr []"
| "ingressWantLoop f ips (h # hs) =
     (if h = [] then ingressWantLoop f ips hs
      else (case wantLoop (f h) 0 ips of
              Inl e \<Rightarrow> Inl e
            | Inr rs \<Rightarrow> map_sum id (\<lambda>l. rs @ l) (ingressWantLoop f ips hs)))"

definition ingressWant :: "ext \<Rightarrow> owners \<Rightarrow> Ingress \<Rightarrow> go_error + DNSRecord list" where
  "ingressWant E M ing =
     ingressWantLoop (\<lambda>h. childRecord E M IngressKind (ing_Meta ing) IngressAnnotation ''ing'' h
                            (annotationTTL (annotations (ing_Meta ing))))
       (nonEmpty (ing_IPs ing)) (ing_Hosts ing)"

definition ingressReconcile ::
  "ext \<Rightarrow> owners \<Rightarrow> 'w kclient \<Rightarrow> (NamespacedName \<Rightarrow> 'w \<Rightarrow> (go_error + Ingress) \<times> 'w) \<Rightarrow> NamespacedName
     \<Rightarrow> 'w \<Rightarrow> (Result \<times> go_error option) \<times> 'w" where
  "ingressReconcile E M K getIng req w =
     (case getIng req w of
        (Inl e, w1) \<Rightarrow> ((result0, ignoreNotFound e), w1)
      | (Inr ing, w1) \<Rightarrow>
          (case k_List K (nn_Namespace req) w1 of
             (Inl e, w2) \<Rightarrow> ((result0, Some e), w2)
           | (Inr _, w2) \<Rightarrow>
               (case childRecords M K IngressKind (ing_Meta ing) IngressAnnotation w2 of
                  (Inl e, w3) \<Rightarrow> ((result0, Some e), w3)
                | (Inr got, w3) \<Rightarrow>
                    if fmlookup (annotations (ing_Meta ing)) IgnoredAnnotation \<noteq> None
                    then deleteChildren K got w3
                    else (case ingressWant E M ing of
                            Inl e \<Rightarrow> ((result0, Some e), w3)
                          | Inr want \<Rightarrow> reconcileChildRecords K got want w3))))"

text \<open>
  The objects whose events reach the Service controller's filter: the filter is installed
  for the whole controller, so it also sees the owned \<^verbatim>\<open>DNSRecord\<close>s.
\<close>

datatype watched = NilObject | ServiceObject Service | RecordObject DNSRecord

definition serviceFilter :: "watched \<Rightarrow> bool" where
  "serviceFilter ob =
     (case ob of
        ServiceObject svc \<Rightarrow>
          svc_Type svc = ServiceTypeLoadBalancer
          \<and> (case m_Annotations (svc_Meta svc) of
               None \<Rightarrow> False
             | Some a \<Rightarrow> fmlookup a HostnameAnnotation \<noteq> None)
      | _ \<Rightarrow> False)"

datatype watchEvent =
    CreateEvent watched | DeleteEvent watched | UpdateEvent watched watched | GenericEvent watched

fun servicePredicate :: "watchEvent \<Rightarrow> bool" where
  "servicePredicate (CreateEvent x) = serviceFilter x"
| "servicePredicate (DeleteEvent x) = serviceFilter x"
| "servicePredicate (UpdateEvent x y) = (if serviceFilter x then True else serviceFilter y)"
| "servicePredicate (GenericEvent x) = serviceFilter x"

section \<open>What the code relies on\<close>

text \<open>
  \<^verbatim>\<open>SetControllerReference\<close> changes nothing but the owner references, and what it makes of
  an object without any does not depend on the rest of that object.
\<close>

definition owner_law :: "owners \<Rightarrow> bool" where
  "owner_law M \<longleftrightarrow>
     (\<forall>k ob m m'. setControllerReference M k ob m = Inr m' \<longrightarrow>
        m' = m\<lparr>m_OwnerReferences := m_OwnerReferences m'\<rparr>)
     \<and> (\<forall>k ob m n m' n'. m_OwnerReferences m = None \<and> m_OwnerReferences n = None
          \<and> setControllerReference M k ob m = Inr m' \<and> setControllerReference M k ob n = Inr n' \<longrightarrow>
          m_OwnerReferences m' = m_OwnerReferences n')"

section \<open>The common shape of the two reconcilers\<close>

text \<open>
  What both reconcilers do with an object of type \<open>'o\<close>: \<open>meta\<close> is its metadata,
  \<open>withdrawn\<close> the condition for deleting its children, \<open>want\<close> the records it asks for.
\<close>

locale owner_controller =
  fixes M :: owners and kind :: ownerKind and annotation :: string and meta :: "'o \<Rightarrow> ObjectMeta"
    and withdrawn :: "'o \<Rightarrow> bool" and want :: "'o \<Rightarrow> go_error + DNSRecord list"
    and reconcile :: "'w kclient \<Rightarrow> (NamespacedName \<Rightarrow> 'w \<Rightarrow> (go_error + 'o) \<times> 'w) \<Rightarrow> NamespacedName
                        \<Rightarrow> 'w \<Rightarrow> (Result \<times> go_error option) \<times> 'w"
  assumes reconcile_absent: "getO req w = (Inl e, w1) \<Longrightarrow> reconcile K getO req w = ((result0, ignoreNotFound e), w1)"
    and reconcile_children: "getO req w = (Inr ob, w1) \<Longrightarrow> k_List K (nn_Namespace req) w1 = (Inr recs, w2) \<Longrightarrow>
      childRecords M K kind (meta ob) annotation w2 = (Inr got, w3) \<Longrightarrow> \<not> withdrawn ob \<Longrightarrow> want ob = Inr ws \<Longrightarrow>
      reconcile K getO req w = reconcileChildRecords K got ws w3"
    and reconcile_withdrawn: "getO req w = (Inr ob, w1) \<Longrightarrow> k_List K (nn_Namespace req) w1 = (Inr recs, w2) \<Longrightarrow>
      childRecords M K kind (meta ob) annotation w2 = (Inr got, w3) \<Longrightarrow> withdrawn ob \<Longrightarrow>
      reconcile K getO req w = deleteChildren K got w3"
begin

lemma published:
  assumes "lawfulCRUD K get" and "getO req w = (Inr ob, w)" and "nn_Namespace req = m_Namespace (meta ob)"
    and "k_List K (m_Namespace (meta ob)) w = (Inr recs, w)"
    and "childLoop M kind (meta ob) annotation recs = Inr got"
    and "\<not> withdrawn ob" and "want ob = Inr ws" and "inSync get (m_Namespace (meta ob)) got ws w"
  obtains w' where "reconcile K getO req w = ((result0, None), w')"
    and "\<And>v. v \<in> set ws \<Longrightarrow> \<exists>u. get w' (keyOf v) = Some u \<and> r_Spec u = r_Spec v"
    and "\<forall>v \<in> set got. objName v \<notin> objName ` set ws \<longrightarrow> goingAway (get w' (keyOf v))"
proof -
  have l: "k_List K (nn_Namespace req) w = (Inr recs, w)" using assms(3,4) by simp
  have c: "childRecords M K kind (meta ob) annotation w = (Inr got, w)"
    using assms(4,5) by (simp add: childRecords_def)
  from child_sync [OF assms(1,8)] obtain w' where
    r: "reconcileChildRecords K got ws w = ((result0, None), w')"
    and v: "\<forall>v \<in> set ws. \<exists>u. get w' (keyOf v) = Some u \<and> matches v u"
    and a: "\<forall>v \<in> set got. objName v \<notin> objName ` set ws \<longrightarrow> goingAway (get w' (keyOf v))"
    by blast
  show thesis
  proof (rule that)
    show "reconcile K getO req w = ((result0, None), w')"
      using reconcile_children [where getO = getO, OF assms(2) l c assms(6,7)] r by simp
    show "\<exists>u. get w' (keyOf v) = Some u \<and> r_Spec u = r_Spec v" if "v \<in> set ws" for v
      using v that by (auto simp: matches_def differs_def)
  qed (rule a)
qed

lemma object_gone: "getO req w = (Inl (ApiNotFound t), w1) \<Longrightarrow> reconcile K getO req w = ((result0, None), w1)"
  by (simp add: reconcile_absent ignoreNotFound_def)

end

interpretation service: owner_controller M ServiceKind ServiceAnnotation svc_Meta "serviceWithdrawn E"
    "serviceWant E M" "serviceReconcile E M" for E M
  by unfold_locales (simp_all add: serviceReconcile_def)

interpretation ingress: owner_controller M IngressKind IngressAnnotation ing_Meta
    "\<lambda>ing. fmlookup (annotations (ing_Meta ing)) IgnoredAnnotation \<noteq> None"
    "ingressWant E M" "ingressReconcile E M" for E M
  by unfold_locales (simp_all add: ingressReconcile_def)

section \<open>Lemmas\<close>

lemma childRecord_sel:
  assumes "owner_law M" and "childRecord E M k ob annotation short host ttl i ip = Inr r"
  shows "objName r = recordName (m_Name ob) short host i" "m_Namespace (r_Meta r) = m_Namespace ob"
    "m_Annotations (r_Meta r) = Some (fmupd annotation (m_Name ob) fmempty)"
    "m_Finalizers (r_Meta r) = []"
    "sp_A (r_Spec r) = Some (defaultA E \<lparr>a_Name = host, a_Class = 0, a_Ttl = ttl, a_Target = ip\<rparr>)"
proof -
  let ?sp = "emptySpec\<lparr>sp_A := Some \<lparr>a_Name = host, a_Class = 0, a_Ttl = ttl, a_Target = ip\<rparr>\<rparr>"
  let ?m = "emptyMeta\<lparr>m_Name := recordName (m_Name ob) short host i, m_Namespace := m_Namespace ob,
      m_Annotations := Some (fmupd annotation (m_Name ob) fmempty)\<rparr>"
  obtain m where m: "setControllerReference M k ob ?m = Inr m" "r_Meta r = m" "r_Spec r = defaultSpec E ?sp"
    using assms(2) by (auto simp: childRecord_def Default_def Let_def split: sum.splits)
  have eq: "m = ?m\<lparr>m_OwnerReferences := m_OwnerReferences m\<rparr>"
    using assms(1) m(1) unfolding owner_law_def by blast
  have "m_Name m = recordName (m_Name ob) short host i" "m_Namespace m = m_Namespace ob"
    "m_Annotations m = Some (fmupd annotation (m_Name ob) fmempty)" "m_Finalizers m = []"
    by (subst eq, simp add: emptyMeta_def)+
  with m show "objName r = recordName (m_Name ob) short host i" "m_Namespace (r_Meta r) = m_Namespace ob"
    "m_Annotations (r_Meta r) = Some (fmupd annotation (m_Name ob) fmempty)"
    "m_Finalizers (r_Meta r) = []" by simp_all
  show "sp_A (r_Spec r) = Some (defaultA E \<lparr>a_Name = host, a_Class = 0, a_Ttl = ttl, a_Target = ip\<rparr>)"
    using m(3) by (simp add: defaultSpec_def defaultKind_def emptySpec_def)
qed

text \<open>The spec of a record for one address: switched on, an A record with the defaults applied.\<close>

definition addressSpec :: "ext \<Rightarrow> ObjectMeta \<Rightarrow> string \<Rightarrow> string \<Rightarrow> DNSRecordSpec \<Rightarrow> bool" where
  "addressSpec E m host ip sp \<longleftrightarrow>
     sp_Active sp = Some True
     \<and> sp_A sp = Some (defaultA E \<lparr>a_Name = host, a_Class = 0, a_Ttl = annotationTTL (annotations m), a_Target = ip\<rparr>)"

lemma childRecord_address:
  assumes "owner_law M" and "childRecord E M k ob annotation short host (annotationTTL (annotations ob)) i ip = Inr r"
  shows "addressSpec E ob host ip (r_Spec r)"
proof -
  have "sp_Active (r_Spec r) = Some True"
    using assms(2) by (auto simp: childRecord_def Let_def Default_def Webhook.defaultSpec_Active split: sum.splits)
  then show ?thesis using childRecord_sel(5) [OF assms] by (simp add: addressSpec_def)
qed

lemma wantLoop_Inr:
  "wantLoop f i ips = Inr rs \<Longrightarrow>
     length rs = length ips \<and> (\<forall>j < length ips. f (i + j) (ips ! j) = Inr (rs ! j))"
proof (induction ips arbitrary: i rs)
  case (Cons ip ips)
  then obtain r rs' where r: "f i ip = Inr r" "wantLoop f (Suc i) ips = Inr rs'" "rs = r # rs'"
    by (auto split: sum.splits simp: map_sum_def)
  with Cons.IH [OF r(2)] show ?case by (auto simp: nth_Cons less_Suc_eq_0_disj split: nat.splits)
qed simp

lemma serviceWant_nth:
  assumes "owner_law M" and "serviceWant E M svc = Inr want"
  shows "length want = length (nonEmpty (svc_IPs svc))"
    and "\<And>i. i < length want \<Longrightarrow>
      objName (want ! i) = recordName (m_Name (svc_Meta svc)) ''svc'' (serviceHostname E svc) i
      \<and> m_Namespace (r_Meta (want ! i)) = m_Namespace (svc_Meta svc) \<and> m_Finalizers (r_Meta (want ! i)) = []
      \<and> addressSpec E (svc_Meta svc) (serviceHostname E svc) (nonEmpty (svc_IPs svc) ! i) (r_Spec (want ! i))"
  using wantLoop_Inr [OF assms(2) [unfolded serviceWant_def]] childRecord_sel [OF assms(1)]
    childRecord_address [OF assms(1)] by auto

lemma serviceWant_distinct:
  assumes "owner_law M" and "serviceWant E M svc = Inr want"
  shows "distinct (map objName want)"
  using serviceWant_nth [OF assms] by (auto simp: distinct_conv_nth itoa_recordName)

section \<open>Example objects\<close>

text \<open>Owner references by UID, as the Kubernetes libraries define them.\<close>

definition exOwners :: owners where
  "exOwners =
     \<lparr>isControlledBy = (\<lambda>m ob. case m_OwnerReferences m of
          None \<Rightarrow> False
        | Some rs \<Rightarrow> list_ex (\<lambda>r. or_Controller r = Some True \<and> or_UID r = m_UID ob) rs),
      setControllerReference = (\<lambda>k ob m. Inr (m\<lparr>m_OwnerReferences := Some [
          \<lparr>or_APIVersion = ''v1'', or_Kind = ''Service'', or_Name = m_Name ob, or_UID = m_UID ob,
           or_Controller = Some True, or_BlockOwnerDeletion = Some True\<rparr>]\<rparr>)),
      getControllerOf = (\<lambda>m. case m_OwnerReferences m of
          None \<Rightarrow> None | Some rs \<Rightarrow> find (\<lambda>r. or_Controller r = Some True) rs)\<rparr>"

lemma exOwners_law: "owner_law exOwners"
  by (auto simp: owner_law_def exOwners_def)

definition exService :: Service where
  "exService =
     \<lparr>svc_Meta = emptyMeta\<lparr>m_Name := ''web'', m_Namespace := ''default'', m_UID := ''u1'',
        m_Annotations := Some (fmupd HostnameAnnotation ''www.example.org'' fmempty)\<rparr>,
      svc_Type = ServiceTypeLoadBalancer, svc_IPs = [''10.0.0.1'', [], ''10.0.0.2'']\<rparr>"

definition exSvcKey :: NamespacedName where
  "exSvcKey = \<lparr>nn_Namespace = ''default'', nn_Name = ''web''\<rparr>"

lemma exService_host: "serviceHostname exExt exService = ''www.example.org''"
  by (simp add: serviceHostname_def exService_def annotations_def exPsl_def exDomain_def hasSuffix_def)

lemma exService_published: "\<not> serviceWithdrawn exExt exService"
  unfolding serviceWithdrawn_def exService_host
  by (simp add: exService_def annotations_def HostnameAnnotation_def IgnoredAnnotation_def)

section \<open>Properties\<close>

text \<open>
  A Service of type LoadBalancer with a valid host name annotation is published: when
  the API server works, no listed child waits for adoption or has to be updated while it is
  being deleted, and the other wanted names are free, one reconciliation leaves,
  for each address of the load balancer in order, an active A record with the host name,
  the address and the annotated TTL; children that are no longer wanted are gone or going.
\<close>

lemma service_published:
  assumes "owner_law M" and "lawfulCRUD K get"
    and "getSvc req w = (Inr svc, w)" and "nn_Namespace req = m_Namespace (svc_Meta svc)"
    and "k_List K (m_Namespace (svc_Meta svc)) w = (Inr recs, w)"
    and "childLoop M ServiceKind (svc_Meta svc) ServiceAnnotation recs = Inr got"
    and "\<not> serviceWithdrawn E svc" and "serviceWant E M svc = Inr want"
    and "\<forall>v \<in> set got. m_Namespace (r_Meta v) = m_Namespace (svc_Meta svc) \<and> get w (keyOf v) = Some v"
    and "\<forall>v \<in> set want. byName got (objName v) = None \<longrightarrow> get w (keyOf v) = None"
    and "\<forall>v \<in> set want. \<forall>vv. byName got (objName v) = Some vv \<and> differs v vv \<longrightarrow> \<not> deletionRequested vv"
  shows "\<exists>w'. serviceReconcile E M K getSvc req w = ((result0, None), w')
    \<and> (\<forall>i < length (nonEmpty (svc_IPs svc)). \<exists>u.
         get w' \<lparr>nn_Namespace = m_Namespace (svc_Meta svc),
                 nn_Name = recordName (m_Name (svc_Meta svc)) ''svc'' (serviceHostname E svc) i\<rparr> = Some u
         \<and> addressSpec E (svc_Meta svc) (serviceHostname E svc) (nonEmpty (svc_IPs svc) ! i) (r_Spec u))
    \<and> (\<forall>v \<in> set got. objName v \<notin> objName ` set want \<longrightarrow> goingAway (get w' (keyOf v)))"
proof -
  note nth = serviceWant_nth [OF assms(1,8)]
  have S: "inSync get (m_Namespace (svc_Meta svc)) got want w"
    using assms(9-11) nth(2) serviceWant_distinct [OF assms(1,8)] by (auto simp: inSync_def in_set_conv_nth)
  obtain w' where r: "serviceReconcile E M K getSvc req w = ((result0, None), w')"
    and v: "\<And>v. v \<in> set want \<Longrightarrow> \<exists>u. get w' (keyOf v) = Some u \<and> r_Spec u = r_Spec v"
    and a: "\<forall>v \<in> set got. objName v \<notin> objName ` set want \<longrightarrow> goingAway (get w' (keyOf v))"
    using service.published [where getO = getSvc and get = get, OF assms(2-8) S] by blast
  have "\<exists>u. get w' \<lparr>nn_Namespace = m_Namespace (svc_Meta svc),
                 nn_Name = recordName (m_Name (svc_Meta svc)) ''svc'' (serviceHostname E svc) i\<rparr> = Some u
         \<and> addressSpec E (svc_Meta svc) (serviceHostname E svc) (nonEmpty (svc_IPs svc) ! i) (r_Spec u)"
    if i: "i < length (nonEmpty (svc_IPs svc))" for i
  proof -
    have i': "i < length want" using i nth(1) by simp
    then obtain u where u: "get w' (keyOf (want ! i)) = Some u" "r_Spec u = r_Spec (want ! i)" using v nth_mem by blast
    then show ?thesis using nth(2) [OF i'] by (simp add: keyOf_def)
  qed
  then show ?thesis using r a by blast
qed

lemma exService_want:
  obtains want where "serviceWant exExt exOwners exService = Inr want"
  by (auto simp: serviceWant_def nonEmpty_def exService_def childRecord_def exOwners_def Let_def)

text \<open>
  C22. A Service that carries the ignore annotation, is not of type LoadBalancer, or has no
  host name with a registrable domain loses its records: the reconciliation asks for the
  deletion of its children in order (all of them unless the server refuses one) and for no
  other write.
\<close>

theorem service_withdrawn_deletes:
  assumes "getSvc req w = (Inr svc, w1)" and "k_List K (nn_Namespace req) w1 = (Inr recs0, w2)"
    and "k_List K (m_Namespace (svc_Meta svc)) w2 = (Inr recs, w3)"
    and "childLoop M ServiceKind (svc_Meta svc) ServiceAnnotation recs = Inr got"
    and "serviceWithdrawn E svc"
    and "serviceReconcile E M (logK K) (liftW getSvc) req (w, l) = ((res, err), (w', l'))"
  shows "\<exists>n. l' = l @ map KDelete (take n got) \<and> (err = None \<longrightarrow> n = length got)"
proof -
  have "deleteAll (logK K) got (w3, l) = (err, (w', l'))"
    using assms
    by (auto simp: serviceReconcile_def childRecords_def deleteChildren_def split: prod.splits)
  from deleteAll_log [OF this] show ?thesis
    by (auto simp: performed_def take_map)
qed

definition exIgnored :: Service where
  "exIgnored = exService\<lparr>svc_Type := ''ClusterIP''\<rparr>"

definition exOwned :: DNSRecord where
  "exOwned = exRecord\<lparr>r_Meta := (r_Meta exRecord)\<lparr>m_OwnerReferences := Some [
     \<lparr>or_APIVersion = ''v1'', or_Kind = ''Service'', or_Name = ''web'', or_UID = ''u1'',
      or_Controller = Some True, or_BlockOwnerDeletion = Some True\<rparr>]\<rparr>\<rparr>"

theorem service_withdrawn_deletes_witness:
  "\<exists>res err w' l'. serviceReconcile exExt exOwners (logK memK) (liftW (\<lambda>_ w. (Inr exIgnored, w))) exSvcKey
       (([exOwned], ()), []) = ((res, err), (w', l'))
     \<and> (\<exists>n. l' = map KDelete (take n [exOwned]))"
proof -
  let ?w = "([exOwned], ()) :: DNSRecord list \<times> unit"
  have n: "m_Namespace (r_Meta exOwned) = ''default''" by (simp add: exOwned_def exRecord_def)
  have l: "k_List memK (nn_Namespace exSvcKey) ?w = (Inr [exOwned], ?w)"
    "k_List memK (m_Namespace (svc_Meta exIgnored)) ?w = (Inr [exOwned], ?w)"
    by (simp_all add: memK_def exSvcKey_def exIgnored_def exService_def n)
  have c: "childLoop exOwners ServiceKind (svc_Meta exIgnored) ServiceAnnotation [exOwned] = Inr [exOwned]"
    by (simp add: exOwners_def exOwned_def exIgnored_def exService_def)
  have d: "serviceWithdrawn exExt exIgnored"
    by (simp add: serviceWithdrawn_def exIgnored_def ServiceTypeLoadBalancer_def)
  obtain res err w' l' where r: "serviceReconcile exExt exOwners (logK memK)
      (liftW (\<lambda>_ w. (Inr exIgnored, w))) exSvcKey (?w, []) = ((res, err), (w', l'))"
    by (metis surj_pair)
  obtain n where "l' = [] @ map KDelete (take n [exOwned])"
    using service_withdrawn_deletes [where getSvc = "\<lambda>_ w. (Inr exIgnored, w)", OF refl l c d r] by blast
  then have q: "\<exists>n. l' = map KDelete (take n [exOwned])" unfolding append_Nil by blast
  show ?thesis by (rule exI, rule exI, rule exI, rule exI, rule conjI [OF r q])
qed

text \<open>
  C23. Adoption is not written back. A record that carries the Service's annotation but no
  owner reference (after a restore from backup) is given one in memory only: if its spec and
  annotations are the wanted ones, the reconciliation writes nothing, so the stored record
  stays without an owner and is not garbage collected with the Service.
\<close>

theorem adoption_not_persisted:
  assumes "owner_law M" and "getSvc req w = (Inr svc, w)"
    and "k_List K (nn_Namespace req) w = (Inr [vv], w)" and "nn_Namespace req = m_Namespace (svc_Meta svc)"
    and "\<not> isControlledBy M (r_Meta vv) (svc_Meta svc)" and "m_OwnerReferences (r_Meta vv) = None"
    and "fmlookup (annotations (r_Meta vv)) ServiceAnnotation = Some (m_Name (svc_Meta svc))"
    and "setControllerReference M ServiceKind (svc_Meta svc) (r_Meta vv) = Inr m"
    and "\<not> serviceWithdrawn E svc" and "serviceWant E M svc = Inr [v]"
    and "objName v = objName vv" and "r_Spec v = r_Spec vv"
    and "m_Annotations (r_Meta v) = m_Annotations (r_Meta vv)"
    and "m_OwnerReferences (r_Meta v) = m_OwnerReferences m"
  shows "serviceReconcile E M (logK K) (liftW getSvc) req (w, l) = ((result0, None), (w, l))"
proof -
  have eq: "m = (r_Meta vv)\<lparr>m_OwnerReferences := m_OwnerReferences m\<rparr>"
    using assms(1,8) unfolding owner_law_def by blast
  let ?vv = "vv\<lparr>r_Meta := m\<rparr>"
  have sel: "m_Name m = objName vv" "m_Annotations m = m_Annotations (r_Meta vv)"
    by (subst eq, simp)+
  have "annotations (r_Meta vv) \<noteq> fmempty" using assms(7) by auto
  then have "childRecords M (logK K) ServiceKind (svc_Meta svc) ServiceAnnotation (w, l) = (Inr [?vv], (w, l))"
    using assms(3-5,7,8) by (simp add: childRecords_def)
  moreover have "diffRecords [?vv] [v] = ([], [], [])"
    using assms(11-14) sel
    by (simp add: diffRecords_def diffAdd_def diffUpdate_def diffDel_def byName_def differs_def List.map_filter_def)
  ultimately show ?thesis
    using assms(2-4,9,10) by (simp add: serviceReconcile_def reconcileChildRecords_def)
qed

definition exSingle :: Service where
  "exSingle = exService\<lparr>svc_IPs := [''10.0.0.1'']\<rparr>"

lemma exSingle_facts:
  "serviceHostname exExt exSingle = ''www.example.org''" "\<not> serviceWithdrawn exExt exSingle"
  using exService_host exService_published
  by (simp_all add: serviceWithdrawn_def serviceHostname_def exSingle_def)

theorem adoption_not_persisted_witness:
  "\<exists>vv. m_OwnerReferences (r_Meta vv) = None
     \<and> serviceReconcile exExt exOwners (logK memK) (liftW (\<lambda>_ w. (Inr exSingle, w))) exSvcKey
         (([vv], ()), []) = ((result0, None), (([vv], ()), []))"
proof -
  obtain v where v: "childRecord exExt exOwners ServiceKind (svc_Meta exSingle) ServiceAnnotation ''svc''
      (serviceHostname exExt exSingle) (annotationTTL (annotations (svc_Meta exSingle))) 0 ''10.0.0.1'' = Inr v"
    by (auto simp: childRecord_def exOwners_def Let_def)
  note c = childRecord_sel [OF exOwners_law v]
  have want: "serviceWant exExt exOwners exSingle = Inr [v]"
    using v unfolding serviceWant_def by (simp add: nonEmpty_def exSingle_def)
  let ?vv = "v\<lparr>r_Meta := (r_Meta v)\<lparr>m_OwnerReferences := None\<rparr>\<rparr>"
  let ?w = "([?vv], ()) :: DNSRecord list \<times> unit"
  let ?m = "(r_Meta v)\<lparr>m_OwnerReferences := Some [
      \<lparr>or_APIVersion = ''v1'', or_Kind = ''Service'', or_Name = ''web'', or_UID = ''u1'',
       or_Controller = Some True, or_BlockOwnerDeletion = Some True\<rparr>]\<rparr>"
  have o: "m_OwnerReferences (r_Meta v) = m_OwnerReferences ?m"
    using v by (auto simp: childRecord_def exOwners_def Let_def exSingle_def exService_def)
  have n: "nn_Namespace exSvcKey = m_Namespace (svc_Meta exSingle)"
    by (simp add: exSvcKey_def exSingle_def exService_def)
  have l: "k_List memK (nn_Namespace exSvcKey) ?w = (Inr [?vv], ?w)"
    using c(2) n by (simp add: memK_def)
  have i: "\<not> isControlledBy exOwners (r_Meta ?vv) (svc_Meta exSingle)" by (simp add: exOwners_def)
  have a: "fmlookup (annotations (r_Meta ?vv)) ServiceAnnotation = Some (m_Name (svc_Meta exSingle))"
    using c(3) by (simp add: annotations_def)
  have s: "setControllerReference exOwners ServiceKind (svc_Meta exSingle) (r_Meta ?vv) = Inr ?m"
    by (simp add: exOwners_def exSingle_def exService_def)
  have "serviceReconcile exExt exOwners (logK memK) (liftW (\<lambda>_ w. (Inr exSingle, w))) exSvcKey (?w, [])
      = ((result0, None), (?w, []))"
    by (rule adoption_not_persisted [where getSvc = "\<lambda>_ w. (Inr exSingle, w)" and m = ?m and v = v,
          OF exOwners_law refl l n i _ a s exSingle_facts(2) want]) (use o in simp_all)
  then show ?thesis by (intro exI [of _ ?vv]) simp
qed

text \<open>
  C25. The event filter lets every change through that publishes or withdraws a Service: if
  either version of it is published, the update is handled. But it drops every event about
  an owned record, so that a child deleted or edited by hand is not repaired until the
  Service itself changes.
\<close>

theorem service_events:
  "(\<not> serviceWithdrawn E old \<or> \<not> serviceWithdrawn E new \<longrightarrow>
      servicePredicate (UpdateEvent (ServiceObject old) (ServiceObject new)))
   \<and> \<not> servicePredicate (CreateEvent (RecordObject r)) \<and> \<not> servicePredicate (DeleteEvent (RecordObject r))
   \<and> \<not> servicePredicate (UpdateEvent (RecordObject r) (RecordObject r'))
   \<and> \<not> servicePredicate (GenericEvent (RecordObject r))"
proof -
  have "serviceFilter (ServiceObject svc)" if "\<not> serviceWithdrawn E svc" for svc
    using that
    by (auto simp: serviceWithdrawn_def serviceFilter_def serviceHostname_def annotations_def
        split: option.splits if_splits)
  then show ?thesis by (auto simp: serviceFilter_def)
qed

theorem service_events_witness:
  "servicePredicate (UpdateEvent (ServiceObject exService) (ServiceObject exIgnored))"
  using service_events [of exExt exService exIgnored exOwned exOwned] exService_published by simp

section \<open>Ingress\<close>

lemma ingressWantLoop_mem:
  assumes "ingressWantLoop f ips hs = Inr want"
  shows "r \<in> set want \<longleftrightarrow>
    (\<exists>h \<in> set hs. h \<noteq> [] \<and> (\<exists>i < length ips. f h i (ips ! i) = Inr r))"
  using assms
proof (induction hs arbitrary: want)
  case (Cons h hs)
  show ?case
  proof (cases "h = []")
    case False
    then obtain rs l where l: "wantLoop (f h) 0 ips = Inr rs" "ingressWantLoop f ips hs = Inr l" "want = rs @ l"
      using Cons.prems by (auto split: sum.splits simp: map_sum_def)
    have "r \<in> set rs \<longleftrightarrow> (\<exists>i < length ips. f h i (ips ! i) = Inr r)"
      using wantLoop_Inr [OF l(1)] by (auto simp: in_set_conv_nth)
    then show ?thesis using Cons.IH [OF l(2)] l(3) False by auto
  qed (use Cons in auto)
qed simp

lemma ingressWantLoop_Inr:
  assumes "ingressWantLoop f ips hs = Inr want" and "h \<in> set hs" and "h \<noteq> []" and "i < length ips"
  shows "\<exists>r. f h i (ips ! i) = Inr r"
  using assms
proof (induction hs arbitrary: want)
  case (Cons g hs)
  show ?case
  proof (cases "g = [] \<or> g \<noteq> h")
    case True
    then obtain l where "ingressWantLoop f ips hs = Inr l"
      using Cons.prems(1) by (auto split: sum.splits if_splits simp: map_sum_def)
    then show ?thesis using Cons True by auto
  next
    case False
    then obtain rs where "wantLoop (f h) 0 ips = Inr rs" using Cons.prems(1) by (auto split: sum.splits)
    then show ?thesis using wantLoop_Inr Cons.prems(4) by fastforce
  qed
qed simp

text \<open>
  An Ingress without the ignore annotation is published: when the API server works, no
  listed child waits for adoption or has to be updated while it is being deleted, the other
  wanted names are free and the generated object names differ, one reconciliation
  leaves, for each rule with a host and each address of the load balancer, an active A
  record with the host, the address and the annotated TTL; children that are no longer wanted are gone or
  going.
\<close>

lemma ingress_published:
  assumes "owner_law M" and "lawfulCRUD K get"
    and "getIng req w = (Inr ing, w)" and "nn_Namespace req = m_Namespace (ing_Meta ing)"
    and "k_List K (m_Namespace (ing_Meta ing)) w = (Inr recs, w)"
    and "childLoop M IngressKind (ing_Meta ing) IngressAnnotation recs = Inr got"
    and "fmlookup (annotations (ing_Meta ing)) IgnoredAnnotation = None"
    and "ingressWant E M ing = Inr want" and "distinct (map objName want)"
    and "\<forall>v \<in> set got. m_Namespace (r_Meta v) = m_Namespace (ing_Meta ing) \<and> get w (keyOf v) = Some v"
    and "\<forall>v \<in> set want. byName got (objName v) = None \<longrightarrow> get w (keyOf v) = None"
    and "\<forall>v \<in> set want. \<forall>vv. byName got (objName v) = Some vv \<and> differs v vv \<longrightarrow> \<not> deletionRequested vv"
  shows "\<exists>w'. ingressReconcile E M K getIng req w = ((result0, None), w')
    \<and> (\<forall>h \<in> set (ing_Hosts ing). \<forall>i < length (nonEmpty (ing_IPs ing)). h \<noteq> [] \<longrightarrow> (\<exists>u.
         get w' \<lparr>nn_Namespace = m_Namespace (ing_Meta ing),
                 nn_Name = recordName (m_Name (ing_Meta ing)) ''ing'' h i\<rparr> = Some u
         \<and> addressSpec E (ing_Meta ing) h (nonEmpty (ing_IPs ing) ! i) (r_Spec u)))
    \<and> (\<forall>v \<in> set got. objName v \<notin> objName ` set want \<longrightarrow> goingAway (get w' (keyOf v)))"
proof -
  let ?f = "\<lambda>h. childRecord E M IngressKind (ing_Meta ing) IngressAnnotation ''ing'' h
      (annotationTTL (annotations (ing_Meta ing)))"
  let ?ips = "nonEmpty (ing_IPs ing)"
  note mem = ingressWantLoop_mem [OF assms(8) [unfolded ingressWant_def]]
  note sel = childRecord_sel [OF assms(1)]
  have S: "inSync get (m_Namespace (ing_Meta ing)) got want w"
    using assms(9-12) mem sel(2) by (auto simp: inSync_def)
  have n: "\<not> fmlookup (annotations (ing_Meta ing)) IgnoredAnnotation \<noteq> None" using assms(7) by simp
  obtain w' where rec: "ingressReconcile E M K getIng req w = ((result0, None), w')"
    and v: "\<And>v. v \<in> set want \<Longrightarrow> \<exists>u. get w' (keyOf v) = Some u \<and> r_Spec u = r_Spec v"
    and a: "\<forall>v \<in> set got. objName v \<notin> objName ` set want \<longrightarrow> goingAway (get w' (keyOf v))"
    using ingress.published [where getO = getIng and get = get, OF assms(2-6) n assms(8) S] by blast
  have "\<exists>u. get w' \<lparr>nn_Namespace = m_Namespace (ing_Meta ing),
       nn_Name = recordName (m_Name (ing_Meta ing)) ''ing'' h i\<rparr> = Some u
       \<and> addressSpec E (ing_Meta ing) h (?ips ! i) (r_Spec u)"
    if h: "h \<in> set (ing_Hosts ing)" "i < length ?ips" "h \<noteq> []" for h i
  proof -
    obtain r where r: "?f h i (?ips ! i) = Inr r" "r \<in> set want"
      using ingressWantLoop_Inr [OF assms(8) [unfolded ingressWant_def] h(1,3,2)] mem h by blast
    obtain u where u: "get w' (keyOf r) = Some u" "r_Spec u = r_Spec r" using v r(2) by blast
    then show ?thesis using sel [OF r(1)] childRecord_address [OF assms(1) r(1)] by (simp add: keyOf_def)
  qed
  then show ?thesis using rec a by blast
qed

definition exIngress :: Ingress where
  "exIngress = \<lparr>ing_Meta = emptyMeta\<lparr>m_Name := ''web'', m_Namespace := ''default'', m_UID := ''u2''\<rparr>,
     ing_Hosts = [[], ''www.example.org''], ing_IPs = [''10.0.0.1'']\<rparr>"

end
