(* ===== verification/Locks.thy ===== *)
theory Locks
  imports Go_Prelude
begin

text \<open>
  The two locking protocols of the program as state machines. In
  \<^verbatim>\<open>controllers/dnsrecord_controller.go\<close> up to eight workers run \<^verbatim>\<open>Reconcile\<close>; each finds or
  creates the mutex of its object in a map that another mutex guards, and holds it while the
  handler runs. In \<^verbatim>\<open>pkg/provider/libdns/sync.go\<close> the calls of one client go through a
  reader-writer lock. A step is one lock operation of one worker; workers interleave freely.
\<close>

section \<open>One mutex per object\<close>

text \<open>Where a worker is: before the map's mutex, inside it, before and inside the object's.\<close>

datatype workerPc =
    Idle
  | WantMap string
  | InMap string
  | WantKey string nat
  | Running string nat

text \<open>
  \<^verbatim>\<open>r.mu\<close> with its holder, the map \<^verbatim>\<open>r.locks\<close> (a mutex is known by the number of its
  allocation), the holders of these mutexes and the next free number.
\<close>

record lockState =
  ls_pc :: "nat \<Rightarrow> workerPc"
  ls_mu :: "nat option"
  ls_locks :: "string \<rightharpoonup> nat"
  ls_held :: "nat \<rightharpoonup> nat"
  ls_next :: nat

definition lockInit :: lockState where
  "lockInit = \<lparr>ls_pc = (\<lambda>_. Idle), ls_mu = None, ls_locks = Map.empty, ls_held = Map.empty, ls_next = 0\<rparr>"

text \<open>The lookup under \<^verbatim>\<open>r.mu\<close>: the key's mutex, allocated when there is none.\<close>

definition lockFor :: "string \<Rightarrow> lockState \<Rightarrow> nat \<times> lockState" where
  "lockFor k s =
     (case ls_locks s k of
        Some m \<Rightarrow> (m, s)
      | None \<Rightarrow> (ls_next s, s\<lparr>ls_locks := (ls_locks s)(k \<mapsto> ls_next s), ls_next := Suc (ls_next s)\<rparr>))"

definition setPc :: "nat \<Rightarrow> workerPc \<Rightarrow> lockState \<Rightarrow> lockState" where
  "setPc i pc s = s\<lparr>ls_pc := (ls_pc s)(i := pc)\<rparr>"

inductive lockStep :: "lockState \<Rightarrow> lockState \<Rightarrow> bool" where
  request: "ls_pc s i = Idle \<Longrightarrow> lockStep s (setPc i (WantMap k) s)"
| lockMap: "ls_pc s i = WantMap k \<Longrightarrow> ls_mu s = None \<Longrightarrow>
     lockStep s (setPc i (InMap k) (s\<lparr>ls_mu := Some i\<rparr>))"
| takeLock: "ls_pc s i = InMap k \<Longrightarrow> lockFor k s = (m, s1) \<Longrightarrow>
     lockStep s (setPc i (WantKey k m) (s1\<lparr>ls_mu := None\<rparr>))"
| lockKey: "ls_pc s i = WantKey k m \<Longrightarrow> ls_held s m = None \<Longrightarrow>
     lockStep s (setPc i (Running k m) (s\<lparr>ls_held := (ls_held s)(m \<mapsto> i)\<rparr>))"
| finish: "ls_pc s i = Running k m \<Longrightarrow>
     lockStep s (setPc i Idle (s\<lparr>ls_held := (ls_held s)(m := None)\<rparr>))"

definition lockInv :: "lockState \<Rightarrow> bool" where
  "lockInv s \<longleftrightarrow>
     (\<forall>k k' m. ls_locks s k = Some m \<and> ls_locks s k' = Some m \<longrightarrow> k = k')
     \<and> (\<forall>k m. ls_locks s k = Some m \<longrightarrow> m < ls_next s)
     \<and> (\<forall>i k m. ls_pc s i = WantKey k m \<or> ls_pc s i = Running k m \<longrightarrow> ls_locks s k = Some m)
     \<and> (\<forall>i m. ls_held s m = Some i \<longleftrightarrow> (\<exists>k. ls_pc s i = Running k m))
     \<and> (\<forall>i. ls_mu s = Some i \<longleftrightarrow> (\<exists>k. ls_pc s i = InMap k))"

lemma setPc_sel [simp]:
  "ls_pc (setPc i pc s) = (ls_pc s)(i := pc)" "ls_mu (setPc i pc s) = ls_mu s"
  "ls_locks (setPc i pc s) = ls_locks s" "ls_held (setPc i pc s) = ls_held s"
  "ls_next (setPc i pc s) = ls_next s"
  by (simp_all add: setPc_def)

lemma lockInv_init: "lockInv lockInit"
  by (simp add: lockInv_def lockInit_def)

lemma lockFor_cases:
  assumes "lockFor k s = (m, s1)"
  obtains (old) "ls_locks s k = Some m" "s1 = s"
  | (new) "ls_locks s k = None" "m = ls_next s"
      "s1 = s\<lparr>ls_locks := (ls_locks s)(k \<mapsto> m), ls_next := Suc m\<rparr>"
  using assms by (auto simp: lockFor_def split: option.splits)

lemma lockInv_D:
  assumes "lockInv s"
  shows "ls_pc s i = InMap k \<Longrightarrow> ls_mu s = Some i" "ls_pc s i = Running k m \<Longrightarrow> ls_held s m = Some i"
    "ls_pc s i = WantKey k m \<Longrightarrow> ls_locks s k = Some m" "ls_pc s i = Running k m \<Longrightarrow> ls_locks s k = Some m"
    "ls_held s m = Some i \<Longrightarrow> \<exists>k. ls_pc s i = Running k m" "ls_mu s = Some i \<Longrightarrow> \<exists>k. ls_pc s i = InMap k"
    "ls_locks s k = Some m \<Longrightarrow> m < ls_next s"
    "ls_locks s k = Some m \<Longrightarrow> ls_locks s k' = Some m \<Longrightarrow> k = k'"
  using assms unfolding lockInv_def by blast+

lemma lockInvI:
  assumes "\<And>k k' m. ls_locks s k = Some m \<Longrightarrow> ls_locks s k' = Some m \<Longrightarrow> k = k'"
    and "\<And>k m. ls_locks s k = Some m \<Longrightarrow> m < ls_next s"
    and "\<And>i k m. ls_pc s i = WantKey k m \<Longrightarrow> ls_locks s k = Some m"
    and "\<And>i k m. ls_pc s i = Running k m \<Longrightarrow> ls_locks s k = Some m"
    and "\<And>i k m. ls_pc s i = Running k m \<Longrightarrow> ls_held s m = Some i"
    and "\<And>i m. ls_held s m = Some i \<Longrightarrow> \<exists>k. ls_pc s i = Running k m"
    and "\<And>i k. ls_pc s i = InMap k \<Longrightarrow> ls_mu s = Some i"
    and "\<And>i. ls_mu s = Some i \<Longrightarrow> \<exists>k. ls_pc s i = InMap k"
  shows "lockInv s"
  using assms unfolding lockInv_def by blast

lemma lockInv_take:
  assumes I: "lockInv s" and pc: "ls_pc s i = InMap k" and m: "lockFor k s = (m, s1)"
  shows "lockInv (setPc i (WantKey k m) (s1\<lparr>ls_mu := None\<rparr>))"
proof -
  note D = lockInv_D [OF I]
  have one: "j = i" if "ls_pc s j = InMap k'" for j k' using D(1) [OF that] D(1) [OF pc] by simp
  have s1: "ls_pc s1 = ls_pc s" "ls_held s1 = ls_held s" "ls_locks s1 k = Some m"
    using m by (auto elim!: lockFor_cases)
  have grow: "ls_locks s1 k' = Some n" if "ls_locks s k' = Some n" for k' n
    using m that by (auto elim!: lockFor_cases)
  have lt: "n < ls_next s1" if "ls_locks s1 k' = Some n" for k' n
    using m that D(7) by (auto elim!: lockFor_cases split: if_splits simp: less_Suc_eq)
  have fresh: "ls_locks s k' \<noteq> Some (ls_next s)" for k' using D(7) by blast
  have inj: "k1 = k2" if "ls_locks s1 k1 = Some n" "ls_locks s1 k2 = Some n" for k1 k2 n
    using m that D(8) fresh by (auto elim!: lockFor_cases split: if_splits)
  show ?thesis
  proof (rule lockInvI)
    show "\<exists>k'. ls_pc (setPc i (WantKey k m) (s1\<lparr>ls_mu := None\<rparr>)) j = Running k' n"
      if "ls_held (setPc i (WantKey k m) (s1\<lparr>ls_mu := None\<rparr>)) n = Some j" for j n
      using that D(5) [of n j] s1 pc by auto
  qed (use s1 inj lt one grow D(2,3,4) in \<open>auto split: if_splits\<close>)
qed

lemma lockInv_step: "lockStep s s' \<Longrightarrow> lockInv s \<Longrightarrow> lockInv s'"
proof (induction rule: lockStep.induct)
  case (request s i k)
  note D = lockInv_D [OF request(2)]
  have "ls_held s n \<noteq> Some i" for n using D(5) [of n i] request(1) by auto
  moreover have "ls_mu s \<noteq> Some i" using D(6) [of i] request(1) by auto
  ultimately show ?case using D by (intro lockInvI) (auto split: if_splits)
next
  case (lockMap s i k)
  note D = lockInv_D [OF lockMap(3)]
  have "ls_held s n \<noteq> Some i" for n using D(5) [of n i] lockMap(1) by auto
  moreover have "ls_pc s j \<noteq> InMap k'" for j k' using D(1) [of j k'] lockMap(2) by auto
  ultimately show ?case using D(2-5,7,8) by (intro lockInvI) (auto split: if_splits)
next
  case (takeLock s i k m s1)
  then show ?case by (intro lockInv_take)
next
  case (lockKey s i k m)
  note D = lockInv_D [OF lockKey(3)]
  have "ls_held s n \<noteq> Some i" for n using D(5) [of n i] lockKey(1) by auto
  moreover have "ls_mu s \<noteq> Some i" using D(6) [of i] lockKey(1) by auto
  moreover have "n \<noteq> m" if "ls_pc s j = Running k' n" for j k' n using D(2) [OF that] lockKey(2) by auto
  ultimately show ?case using D lockKey(1) by (intro lockInvI) (auto split: if_splits)
next
  case (finish s i k m)
  note D = lockInv_D [OF finish(2)]
  have "n \<noteq> m" if "ls_pc s j = Running k' n" "j \<noteq> i" for j k' n
    using D(2) [OF that(1)] D(2) [OF finish(1)] that(2) by auto
  moreover have "n = m" if "ls_held s n = Some i" for n using D(5) [OF that] finish(1) by auto
  moreover have "ls_mu s \<noteq> Some i" using D(6) [of i] finish(1) by auto
  ultimately show ?case using D by (intro lockInvI) (auto split: if_splits)
qed

interpretation workers: invariant_machine lockStep "\<lambda>s. s = lockInit" lockInv
  by unfold_locales (auto intro: lockInv_init lockInv_step)

text \<open>Worker \<open>i\<close> can still get to run for \<open>k\<close>, without any idle worker being called.\<close>

definition getsLock :: "lockState \<Rightarrow> nat \<Rightarrow> string \<Rightarrow> bool" where
  "getsLock s i k \<longleftrightarrow>
     (\<exists>s' m. lockStep\<^sup>*\<^sup>* s s' \<and> ls_pc s' i = Running k m \<and> (\<forall>j. ls_pc s j = Idle \<longrightarrow> ls_pc s' j = Idle))"

fun waitsFor :: "workerPc \<Rightarrow> string \<Rightarrow> bool" where
  "waitsFor (WantMap k') k = (k' = k)"
| "waitsFor (InMap k') k = (k' = k)"
| "waitsFor (WantKey k' _) k = (k' = k)"
| "waitsFor _ _ = False"

lemma getsLock_step:
  assumes "lockStep s t" and "getsLock t i k" and "\<And>j. ls_pc s j = Idle \<Longrightarrow> ls_pc t j = Idle"
  shows "getsLock s i k"
  using assms unfolding getsLock_def by (meson converse_rtranclp_into_rtranclp)

lemma getsLock_free:
  assumes "ls_pc s i = WantKey k m" and "ls_held s m = None"
  shows "getsLock s i k"
proof -
  let ?t = "setPc i (Running k m) (s\<lparr>ls_held := (ls_held s)(m \<mapsto> i)\<rparr>)"
  have "lockStep\<^sup>*\<^sup>* s ?t" using lockStep.lockKey [OF assms] by blast
  then show ?thesis unfolding getsLock_def using assms(1) by (intro exI [of _ ?t] exI [of _ m]) auto
qed

text \<open>Whoever holds the object's lock can release it, and whoever holds the map's can go on.\<close>

lemma getsLock_key:
  assumes "lockInv s" and "ls_pc s i = WantKey k m"
  shows "getsLock s i k"
proof (cases "ls_held s m")
  case None
  then show ?thesis using getsLock_free assms(2) by blast
next
  case (Some j)
  then obtain k' where j: "ls_pc s j = Running k' m" using lockInv_D(5) [OF assms(1)] by blast
  let ?t = "setPc j Idle (s\<lparr>ls_held := (ls_held s)(m := None)\<rparr>)"
  have "ls_pc ?t i = WantKey k m" "ls_held ?t m = None" using assms(2) j by auto
  then have "getsLock ?t i k" by (rule getsLock_free)
  then show ?thesis by (rule getsLock_step [OF lockStep.finish [OF j]]) auto
qed

lemma getsLock_map:
  assumes "lockInv s" and "ls_pc s i = InMap k"
  shows "getsLock s i k"
proof -
  obtain m s1 where m: "lockFor k s = (m, s1)" by fastforce
  let ?t = "setPc i (WantKey k m) (s1\<lparr>ls_mu := None\<rparr>)"
  have st: "lockStep s ?t" by (rule lockStep.takeLock [OF assms(2) m])
  have pc: "ls_pc s1 = ls_pc s" using m by (rule lockFor_cases) simp_all
  have "getsLock ?t i k" by (rule getsLock_key [OF lockInv_step [OF st assms(1)]]) simp
  then show ?thesis by (rule getsLock_step [OF st]) (use assms(2) pc in auto)
qed

lemma getsLock_enter:
  assumes "lockInv s" and "ls_pc s i = WantMap k" and "ls_mu s = None"
  shows "getsLock s i k"
proof -
  let ?t = "setPc i (InMap k) (s\<lparr>ls_mu := Some i\<rparr>)"
  have st: "lockStep s ?t" by (rule lockStep.lockMap [OF assms(2,3)])
  have "getsLock ?t i k" by (rule getsLock_map [OF lockInv_step [OF st assms(1)]]) simp
  then show ?thesis by (rule getsLock_step [OF st]) (use assms(2) in auto)
qed

lemma getsLock_waiting:
  assumes "lockInv s" and "waitsFor (ls_pc s i) k"
  shows "getsLock s i k"
proof (cases "ls_pc s i")
  case (WantMap k')
  then have i: "ls_pc s i = WantMap k" using assms(2) by simp
  show ?thesis
  proof (cases "ls_mu s")
    case (Some j)
    then obtain h where j: "ls_pc s j = InMap h" using lockInv_D(6) [OF assms(1)] by blast
    obtain m s1 where m: "lockFor h s = (m, s1)" by fastforce
    let ?t = "setPc j (WantKey h m) (s1\<lparr>ls_mu := None\<rparr>)"
    have st: "lockStep s ?t" by (rule lockStep.takeLock [OF j m])
    have pc: "ls_pc s1 = ls_pc s" using m by (rule lockFor_cases) simp_all
    have "getsLock ?t i k" by (rule getsLock_enter [OF lockInv_step [OF st assms(1)]]) (use i j pc in auto)
    then show ?thesis by (rule getsLock_step [OF st]) (use j pc in auto)
  qed (use getsLock_enter [OF assms(1) i] in simp)
qed (use assms getsLock_map getsLock_key in auto)

section \<open>The reader-writer lock of a client\<close>

datatype clientOp = GetOp | AppendOp | DeleteOp

definition isRead :: "clientOp \<Rightarrow> bool" where
  "isRead c = (c = GetOp)"

text \<open>
  \<^verbatim>\<open>sync.RWMutex\<close>: the number of readers inside and whether a writer is inside; and the
  calls that are inside, by caller.
\<close>

record rwState =
  rw_readers :: nat
  rw_writer :: bool
  rw_in :: "(nat, clientOp) fmap"

definition rwInit :: rwState where
  "rwInit = \<lparr>rw_readers = 0, rw_writer = False, rw_in = fmempty\<rparr>"

inductive rwStep :: "rwState \<Rightarrow> rwState \<Rightarrow> bool" where
  rlock: "fmlookup (rw_in s) i = None \<Longrightarrow> isRead c \<Longrightarrow> \<not> rw_writer s \<Longrightarrow>
     rwStep s (s\<lparr>rw_readers := Suc (rw_readers s), rw_in := fmupd i c (rw_in s)\<rparr>)"
| runlock: "fmlookup (rw_in s) i = Some c \<Longrightarrow> isRead c \<Longrightarrow>
     rwStep s (s\<lparr>rw_readers := rw_readers s - 1, rw_in := fmdrop i (rw_in s)\<rparr>)"
| lock: "fmlookup (rw_in s) i = None \<Longrightarrow> \<not> isRead c \<Longrightarrow> \<not> rw_writer s \<Longrightarrow> rw_readers s = 0 \<Longrightarrow>
     rwStep s (s\<lparr>rw_writer := True, rw_in := fmupd i c (rw_in s)\<rparr>)"
| unlock: "fmlookup (rw_in s) i = Some c \<Longrightarrow> \<not> isRead c \<Longrightarrow>
     rwStep s (s\<lparr>rw_writer := False, rw_in := fmdrop i (rw_in s)\<rparr>)"

definition readersIn :: "rwState \<Rightarrow> nat set" where
  "readersIn s = {i. fmlookup (rw_in s) i = Some GetOp}"

definition rwInv :: "rwState \<Rightarrow> bool" where
  "rwInv s \<longleftrightarrow>
     rw_readers s = card (readersIn s)
     \<and> (if rw_writer s then \<exists>i c. \<not> isRead c \<and> fmdom' (rw_in s) = {i} \<and> fmlookup (rw_in s) i = Some c
        else \<forall>i c. fmlookup (rw_in s) i = Some c \<longrightarrow> isRead c)"

lemma finite_readersIn [simp]: "finite (readersIn s)"
proof -
  have "readersIn s \<subseteq> fmdom' (rw_in s)" by (auto simp: readersIn_def fmlookup_dom'_iff)
  then show ?thesis using finite_fmdom' finite_subset by blast
qed

lemma rwInv_step: "rwStep s s' \<Longrightarrow> rwInv s \<Longrightarrow> rwInv s'"
proof (induction rule: rwStep.induct)
  case (rlock s i c)
  let ?s = "s\<lparr>rw_readers := Suc (rw_readers s), rw_in := fmupd i c (rw_in s)\<rparr>"
  have "readersIn ?s = insert i (readersIn s)" "i \<notin> readersIn s"
    using rlock by (auto simp: readersIn_def isRead_def)
  then show ?case using rlock by (auto simp: rwInv_def isRead_def split: if_splits)
next
  case (runlock s i c)
  let ?s = "s\<lparr>rw_readers := rw_readers s - 1, rw_in := fmdrop i (rw_in s)\<rparr>"
  have r: "readersIn ?s = readersIn s - {i}" "i \<in> readersIn s"
    using runlock by (auto simp: readersIn_def isRead_def)
  have "\<not> rw_writer s"
    using runlock by (auto simp: rwInv_def fmlookup_dom'_iff split: if_splits) (metis fmdom'I singletonD option.inject)
  then show ?case using runlock r by (auto simp: rwInv_def split: if_splits)
next
  case (lock s i c)
  then have e: "readersIn s = {}" by (simp add: rwInv_def)
  have n: "fmlookup (rw_in s) j = None" for j
  proof (cases "fmlookup (rw_in s) j")
    case (Some d)
    then have "d = GetOp" using lock by (simp add: rwInv_def isRead_def)
    then show ?thesis using e Some by (auto simp: readersIn_def)
  qed
  then have "rw_in s = fmempty" by (intro fmap_ext) simp
  with lock e show ?case by (auto simp: rwInv_def readersIn_def isRead_def)
next
  case (unlock s i c)
  then have "rw_writer s" by (auto simp: rwInv_def split: if_splits)
  then obtain j d where "fmdom' (rw_in s) = {j}" using unlock by (auto simp: rwInv_def)
  moreover have "i \<in> fmdom' (rw_in s)" using unlock by (auto simp: fmlookup_dom'_iff)
  ultimately have "fmdom' (rw_in s) = {i}" by simp
  then have "fmlookup (fmdrop i (rw_in s)) k = None" for k
    by (metis fmdom'I fmlookup_drop not_Some_eq singletonD)
  then have "fmdrop i (rw_in s) = fmempty" by (intro fmap_ext) simp
  moreover have "readersIn s = {}" using unlock \<open>fmdom' (rw_in s) = {i}\<close>
    by (auto simp: readersIn_def isRead_def) (metis fmdom'I option.inject singletonD)
  ultimately show ?case using unlock by (auto simp: rwInv_def readersIn_def)
qed

interpretation client: invariant_machine rwStep "\<lambda>s. s = rwInit" rwInv
  by unfold_locales (simp add: rwInv_def rwInit_def readersIn_def, rule rwInv_step)

section \<open>Properties\<close>

text \<open>
  C16. The handler runs at most once at a time for one object: in every reachable state of
  the workers, two that are past the lock of the same object are the same worker. And
  no worker waits in vain: from every reachable state the workers that are busy can go on so
  that it gets the lock of its object, without further requests.
\<close>

theorem reconcile_exclusive:
  assumes "lockStep\<^sup>*\<^sup>* lockInit s"
  shows "(ls_pc s i = Running k m \<and> ls_pc s j = Running k n \<longrightarrow> i = j)
    \<and> (waitsFor (ls_pc s i) k \<longrightarrow> getsLock s i k)"
proof -
  note I = workers.inv_reach [OF assms refl]
  have "i = j" if "ls_pc s i = Running k m" "ls_pc s j = Running k n"
    using lockInv_D(2,4) [OF I] that by (metis option.inject)
  then show ?thesis using getsLock_waiting [OF I] by blast
qed

text \<open>One worker runs for an object while another has just been called for it.\<close>

theorem reconcile_exclusive_witness:
  "\<exists>s. lockStep\<^sup>*\<^sup>* lockInit s \<and> ls_pc s 0 = Running ''default/www'' 0 \<and> ls_pc s 1 = WantMap ''default/www''
     \<and> getsLock s 1 ''default/www''"
proof -
  let ?k = "''default/www''"
  define s1 where "s1 = setPc 0 (WantMap ?k) lockInit"
  define s2 where "s2 = setPc 0 (InMap ?k) (s1\<lparr>ls_mu := Some 0\<rparr>)"
  define s3 where "s3 = setPc 0 (WantKey ?k 0) (snd (lockFor ?k s2)\<lparr>ls_mu := None\<rparr>)"
  define s4 where "s4 = setPc 0 (Running ?k 0) (s3\<lparr>ls_held := (ls_held s3)(0 \<mapsto> 0)\<rparr>)"
  define s5 where "s5 = setPc 1 (WantMap ?k) s4"
  note defs = s1_def s2_def s3_def s4_def s5_def lockInit_def lockFor_def setPc_def
  have 1: "lockStep lockInit s1" unfolding s1_def by (rule lockStep.request) (simp add: lockInit_def)
  have 2: "lockStep s1 s2" unfolding s2_def by (rule lockStep.lockMap) (simp_all add: defs)
  have 3: "lockStep s2 s3" unfolding s3_def
    by (rule lockStep.takeLock [of _ _ ?k]) (simp_all add: defs)
  have 4: "lockStep s3 s4" unfolding s4_def by (rule lockStep.lockKey) (simp_all add: defs)
  have 5: "lockStep s4 s5" unfolding s5_def by (rule lockStep.request) (simp add: defs)
  have r: "lockStep\<^sup>*\<^sup>* lockInit s5" using 1 2 3 4 5 by (meson converse_rtranclp_into_rtranclp rtranclp.rtrancl_refl)
  have p: "ls_pc s5 0 = Running ?k 0" "ls_pc s5 1 = WantMap ?k" by (simp_all add: defs)
  then have "getsLock s5 1 ?k" using reconcile_exclusive [OF r, of 1] by simp
  with r p show ?thesis by blast
qed

text \<open>
  C17. A call that changes the zone has the client for itself: in every reachable state of the
  reader-writer lock, if an append or delete call is inside, it is the only one, and no other
  call gets in before it leaves.
\<close>

theorem client_writer_alone:
  assumes "rwStep\<^sup>*\<^sup>* rwInit s" and "fmlookup (rw_in s) i = Some c" and "c = AppendOp \<or> c = DeleteOp"
  shows "rw_in s = fmupd i c fmempty \<and> rw_readers s = 0 \<and> \<not> (\<exists>j d s'. j \<noteq> i \<and> rwStep s s' \<and> fmlookup (rw_in s') j = Some d)"
proof -
  have I: "rwInv s" by (rule client.inv_reach [OF assms(1) refl])
  have w: "\<not> isRead c" using assms(3) by (auto simp: isRead_def)
  then have "rw_writer s" using I assms(2) by (auto simp: rwInv_def split: if_splits)
  moreover from this obtain k where "fmdom' (rw_in s) = {k}" using I by (auto simp: rwInv_def)
  then have o: "fmlookup (rw_in s) j = None" if "j \<noteq> i" for j
    using fmdom'I [OF assms(2)] fmdom'I [of "rw_in s" j] that by (cases "fmlookup (rw_in s) j") auto
  then have u: "rw_in s = fmupd i c fmempty" using assms(2) by (intro fmap_ext) auto
  moreover have "readersIn s = {}" using o assms(2) w by (auto simp: readersIn_def isRead_def) (metis option.distinct(1) option.inject)
  moreover have "fmlookup (rw_in s') j = None" if "rwStep s s'" "j \<noteq> i" for s' j
    using that(1) o [OF that(2)] \<open>rw_writer s\<close> by cases auto
  ultimately show ?thesis using I by (auto simp: rwInv_def)
qed

theorem client_writer_alone_witness:
  "\<exists>s. rwStep\<^sup>*\<^sup>* rwInit s \<and> rw_in s = fmupd 1 AppendOp fmempty
     \<and> \<not> (\<exists>d s'. rwStep s s' \<and> fmlookup (rw_in s') 2 = Some d)"
proof -
  let ?s = "rwInit\<lparr>rw_writer := True, rw_in := fmupd 1 AppendOp fmempty\<rparr>"
  have "rwStep rwInit (rwInit\<lparr>rw_writer := True, rw_in := fmupd 1 AppendOp (rw_in rwInit)\<rparr>)"
    by (rule rwStep.lock) (simp_all add: rwInit_def isRead_def)
  then have "rwStep rwInit ?s" by (simp add: rwInit_def)
  then have r: "rwStep\<^sup>*\<^sup>* rwInit ?s" by (rule r_into_rtranclp)
  have l: "fmlookup (rw_in ?s) 1 = Some AppendOp" by simp
  have "\<not> (\<exists>j d s'. j \<noteq> 1 \<and> rwStep ?s s' \<and> fmlookup (rw_in s') j = Some d)"
    using client_writer_alone [OF r l] by blast
  then have "\<not> (\<exists>d s'. rwStep ?s s' \<and> fmlookup (rw_in s') 2 = Some d)" by (metis numeral_eq_one_iff semiring_norm(85))
  then show ?thesis using r by (intro exI [of _ ?s]) simp
qed

end
