(* ===== verification/Server_Main.thy ===== *)
theory Server_Main
  imports Provider Coredns_Plugin
begin

text \<open>
  Components \<^verbatim>\<open>pkg/coredns/config\<close> (the Corefile that the operator renders for its own
  DNS server), \<^verbatim>\<open>pkg/coredns/coredns.go\<close> (the plugins that server knows) and \<^verbatim>\<open>cmd/k8s-dns/main.go\<close> (what the command line decides: which provider,
  whether the DNS server runs, and which server verifies the records).
\<close>

section \<open>Definitions\<close>

record Config =
  cf_Forward :: "string list"
  cf_Log :: bool
  cf_Errors :: bool
  cf_Metrics :: bool
  cf_Cache :: int
  cf_Any :: bool
  cf_ExternalAddress :: string

definition nl :: char where "nl = CHR 0x0A"
definition tab :: char where "tab = CHR 0x09"

definition intString :: "int \<Rightarrow> string" where
  "intString n = (if n < 0 then ''-'' @ itoa (nat (- n)) else itoa (nat n))"

text \<open>A line of the server block; the template's trim markers eat the line end before it.\<close>

definition directive :: "bool \<Rightarrow> string \<Rightarrow> string" where
  "directive b s = (if b then nl # tab # s else [])"

text \<open>\<^verbatim>\<open>Render\<close>; executing the template into a buffer does not fail.\<close>

definition Render :: "Config \<Rightarrow> string" where
  "Render c =
     nl # ''.:53 {'' @ nl # tab # ''k8s_dns''
     @ (if cf_ExternalAddress c \<noteq> [] then '' '' @ cf_ExternalAddress c else [])
     @ directive (cf_Any c) ''any''
     @ directive (cf_Forward c \<noteq> []) (''forward . '' @ concat (map (\<lambda>v. v @ '' '') (cf_Forward c)))
     @ directive (cf_Cache c \<noteq> 0) (''cache '' @ intString (cf_Cache c))
     @ directive (cf_Log c) ''log''
     @ directive (cf_Errors c) ''errors''
     @ directive (cf_Metrics c) ''prometheus 0.0.0.0:9153''
     @ nl # ''}'' @ [nl]"

text \<open>
  \<^verbatim>\<open>pkg/coredns/coredns.go\<close>: the plugins in the order in which a query passes them, the
  built-in configuration, and the configuration that \<^verbatim>\<open>Run\<close> hands to the server
  (\<^verbatim>\<open>confLoader\<close> returns the variable \<^verbatim>\<open>Config\<close>).
\<close>

definition Directives :: "string list" where
  "Directives =
     [''metadata'', ''cancel'', ''tls'', ''reload'', ''nsid'', ''bufsize'', ''root'', ''bind'',
     ''debug'', ''trace'', ''ready'', ''health'', ''pprof'', ''prometheus'', ''errors'',
     ''log'', ''dnstap'', ''dns64'', ''acl'', ''any'', ''chaos'', ''loadbalance'', ''cache'',
     ''rewrite'', ''dnssec'', ''autopath'', ''template'', ''transfer'', ''hosts'',
     ''route53'', ''azure'', ''clouddns'', ''k8s_dns'', ''k8s_external'', ''kubernetes'',
     ''file'', ''auto'', ''secondary'', ''etcd'', ''loop'', ''forward'', ''grpc'',
     ''erratic'', ''whoami'', ''on'', ''sign'']"

definition defautConfig :: string where
  "defautConfig =
     nl # ''.:53 {'' @ nl # ''    k8s_dns'' @ nl # ''    forward . 8.8.8.8'' @ nl # ''    log''
     @ nl # ''    errors'' @ nl # ''}'' @ [nl]"

definition corednsConfig :: "string \<Rightarrow> string" where
  "corednsConfig config = (if config \<noteq> [] then config else defautConfig)"

text \<open>The flags that decide, with \<^verbatim>\<open>nil\<close> as the empty address, and their defaults.\<close>

record Flags =
  fl_provider :: string
  fl_noDNS :: bool
  fl_external :: IP
  fl_verification :: IP
  fl_forward :: "string list"
  fl_log :: bool
  fl_metrics :: bool
  fl_cache :: int
  fl_any :: bool

definition defaultFlags :: Flags where
  "defaultFlags =
     \<lparr>fl_provider = ''coredns'', fl_noDNS = False, fl_external = ParseIP ''127.0.0.1'',
      fl_verification = ParseIP ''1.1.1.1'', fl_forward = [], fl_log = False, fl_metrics = False,
      fl_cache = 0, fl_any = False\<rparr>"

text \<open>What is started: the reconciler's provider and verification server, and the Corefile if
  the DNS server runs in the process.\<close>

record Startup =
  su_provider :: providerVal
  su_verification :: string
  su_corefile :: "string option"

definition startup :: "getenv \<Rightarrow> Flags \<Rightarrow> go_error + Startup" where
  "startup env f =
     (if fl_provider f = [] \<and> fl_noDNS f
      then Inl (Errorf ''no dns provider specified and no in-process dns server'')
      else
        (let external = (if fl_external f = [] then ParseIP ''127.0.0.1'' else fl_external f);
             verification = (if fl_verification f = [] then ParseIP ''1.1.1.1'' else fl_verification f);
             name = (if fl_provider f = [] then ''coredns'' else fl_provider f);
             noDNS = (if name \<noteq> ''coredns'' then True else fl_noDNS f)
         in case prov_New registry0 env name of
              Inl e \<Rightarrow> Inl e
            | Inr prov \<Rightarrow>
                Inr (if \<not> noDNS then
                       \<lparr>su_provider = prov, su_verification = ''127.0.0.1:53'',
                        su_corefile = Some (Render
                          \<lparr>cf_Forward = fl_forward f, cf_Log = fl_log f, cf_Errors = True,
                           cf_Metrics = fl_metrics f, cf_Cache = fl_cache f, cf_Any = fl_any f,
                           cf_ExternalAddress = ipString external\<rparr>)\<rparr>
                     else
                       \<lparr>su_provider = prov, su_verification = ipString verification @ '':53'',
                        su_corefile = None\<rparr>)))"

section \<open>Lemmas\<close>

text \<open>The lines of the file, between the first and the last line end.\<close>

definition corefileLines :: "Config \<Rightarrow> string list" where
  "corefileLines c =
     [''.:53 {'', tab # ''k8s_dns'' @ (if cf_ExternalAddress c \<noteq> [] then '' '' @ cf_ExternalAddress c else [])]
     @ (if cf_Any c then [tab # ''any''] else [])
     @ (if cf_Forward c \<noteq> [] then [tab # ''forward . '' @ concat (map (\<lambda>v. v @ '' '') (cf_Forward c))] else [])
     @ (if cf_Cache c \<noteq> 0 then [tab # ''cache '' @ intString (cf_Cache c)] else [])
     @ (if cf_Log c then [tab # ''log''] else [])
     @ (if cf_Errors c then [tab # ''errors''] else [])
     @ (if cf_Metrics c then [tab # ''prometheus 0.0.0.0:9153''] else [])
     @ [''}'']"

lemma Render_concat: "Render c = concat (map (\<lambda>l. nl # l) (corefileLines c)) @ [nl]"
  by (simp add: Render_def corefileLines_def directive_def)

lemma splitByte_append_sep: "c \<notin> set xs \<Longrightarrow> splitByte c (xs @ c # ys) = xs # splitByte c ys"
  by (induction xs) auto

lemma splitByte_lines:
  "\<forall>l \<in> set ls. c \<notin> set l \<Longrightarrow> splitByte c (concat (map (\<lambda>l. c # l) ls) @ [c]) = [] # ls @ [[]]"
proof (induction ls)
  case (Cons l ls)
  obtain r where r: "concat (map (\<lambda>l. c # l) ls) @ [c] = c # r" by (cases ls) auto
  then have "splitByte c r = ls @ [[]]" using Cons by simp
  then show ?case using Cons.prems r splitByte_append_sep [of c l r] by simp
qed simp

lemma intString_no_nl: "nl \<notin> set (intString n)"
proof -
  have "decDigit nl = None" by (simp add: decDigit_def nl_def)
  then have "nl \<notin> set (itoa m)" for m using decDigit_itoa by fastforce
  moreover have "nl \<noteq> CHR ''-''" by (simp add: nl_def)
  ultimately show ?thesis by (simp add: intString_def)
qed

lemma corefileLines_no_nl:
  assumes "nl \<notin> set (cf_ExternalAddress c)" and "\<forall>v \<in> set (cf_Forward c). nl \<notin> set v"
  shows "\<forall>l \<in> set (corefileLines c). nl \<notin> set l"
proof -
  have "nl \<notin> set (concat (map (\<lambda>v. v @ '' '') (cf_Forward c)))"
    using assms(2) by (auto simp: nl_def)
  then show ?thesis
    using assms(1) intString_no_nl by (auto simp: corefileLines_def nl_def tab_def)
qed

section \<open>Properties\<close>

text \<open>
  The rendered Corefile: one server block, the plugin first, then the directives that
  the configuration switches on, each on its own line and in a fixed order. No directive has
  a block of its own, so the external address is an argument of \<^verbatim>\<open>k8s_dns\<close>.
\<close>

lemma Render_lines:
  assumes "nl \<notin> set (cf_ExternalAddress c)" and "list_all (\<lambda>v. nl \<notin> set v) (cf_Forward c)"
  shows "splitByte nl (Render c) = [] # corefileLines c @ [[]]"
  using splitByte_lines [OF corefileLines_no_nl] assms by (simp add: Render_concat list_all_iff)

text \<open>The first word of a line, after its tab.\<close>

definition lineDirective :: "string \<Rightarrow> string" where
  "lineDirective l = takeWhile (\<lambda>c. c \<noteq> CHR '' '') (dropWhile (\<lambda>c. c = tab) l)"

text \<open>
  C32. The server understands the rendered file, as long as no address contains a line break:
  \<^verbatim>\<open>Run\<close> uses it (not the built-in one); it is one server block whose lines are the plugin and then the directives that the configuration
  switches on, in a fixed order; each line starts with a registered directive, of which none
  is registered twice, and the records of the cluster are asked after the cache and before
  queries are forwarded.
\<close>

theorem rendered_directives_known:
  assumes "nl \<notin> set (cf_ExternalAddress c)" and "list_all (\<lambda>v. nl \<notin> set v) (cf_Forward c)"
  shows "corednsConfig (Render c) = Render c
   \<and> splitByte nl (Render c) = [] # corefileLines c @ [[]]
   \<and> set (map lineDirective (butlast (tl (corefileLines c)))) \<subseteq> set Directives
   \<and> distinct Directives
   \<and> (\<exists>xs ys zs us. Directives = xs @ ''cache'' # ys @ ''k8s_dns'' # zs @ ''forward'' # us)"
proof (intro conjI)
  show "corednsConfig (Render c) = Render c" by (simp add: corednsConfig_def Render_def)
  show "splitByte nl (Render c) = [] # corefileLines c @ [[]]" by (rule Render_lines [OF assms])
  have "map lineDirective (butlast (tl (corefileLines c))) = [''k8s_dns''] @ (if cf_Any c then [''any''] else [])
     @ (if cf_Forward c \<noteq> [] then [''forward''] else []) @ (if cf_Cache c \<noteq> 0 then [''cache''] else [])
     @ (if cf_Log c then [''log''] else []) @ (if cf_Errors c then [''errors''] else [])
     @ (if cf_Metrics c then [''prometheus''] else [])"
    unfolding corefileLines_def by (simp add: lineDirective_def tab_def butlast_append)
  then show "set (map lineDirective (butlast (tl (corefileLines c)))) \<subseteq> set Directives"
    by (auto simp: Directives_def)
  show "distinct Directives" by (simp add: Directives_def)
  have "Directives = takeWhile (\<lambda>d. d \<noteq> ''cache'') Directives @ ''cache''
     # drop 23 (take 32 Directives) @ ''k8s_dns'' # drop 33 (take 40 Directives) @ ''forward'' # drop 41 Directives"
    by (simp add: Directives_def)
  then show "\<exists>xs ys zs us. Directives = xs @ ''cache'' # ys @ ''k8s_dns'' # zs @ ''forward'' # us" by blast
qed

definition exConfig :: Config where
  "exConfig = \<lparr>cf_Forward = [''8.8.8.8'', ''8.8.4.4''], cf_Log = True, cf_Errors = True, cf_Metrics = True,
     cf_Cache = 300, cf_Any = True, cf_ExternalAddress = []\<rparr>"

theorem rendered_directives_known_witness:
  "\<exists>rest. splitByte nl (corednsConfig (Render exConfig)) = [[], ''.:53 {'', tab # ''k8s_dns'', tab # ''any'',
     tab # ''forward . 8.8.8.8 8.8.4.4 ''] @ rest"
  using rendered_directives_known [of exConfig] by (simp add: exConfig_def corefileLines_def nl_def tab_def)

text \<open>The provider's name after the defaults, and whether the in-process server runs.\<close>

definition chosenProvider :: "Flags \<Rightarrow> string" where
  "chosenProvider f = (if fl_provider f = [] then ''coredns'' else fl_provider f)"

definition servesLocally :: "Flags \<Rightarrow> bool" where
  "servesLocally f \<longleftrightarrow> chosenProvider f = ''coredns'' \<and> \<not> fl_noDNS f"

text \<open>
  What the command line starts. Start-up fails exactly when the provider cannot be
  created or an explicitly empty provider is combined with \<^verbatim>\<open>--no-dns\<close>. Otherwise the
  chosen provider is used; the in-process server runs exactly when that is \<^verbatim>\<open>coredns\<close> and
  \<^verbatim>\<open>--no-dns\<close> is not given, and exactly then the records are verified against it.
\<close>

lemma startup_decisions:
  "((\<exists>e. startup env f = Inl e) \<longleftrightarrow>
      fl_provider f = [] \<and> fl_noDNS f \<or> (\<exists>e. prov_New registry0 env (chosenProvider f) = Inl e))
   \<and> (\<forall>su. startup env f = Inr su \<longrightarrow>
        prov_New registry0 env (chosenProvider f) = Inr (su_provider su)
        \<and> (su_corefile su \<noteq> None \<longleftrightarrow> servesLocally f)
        \<and> su_verification su =
            (if servesLocally f then ''127.0.0.1:53''
             else ipString (if fl_verification f = [] then ParseIP ''1.1.1.1'' else fl_verification f) @ '':53''))"
proof (cases "prov_New registry0 env (chosenProvider f)")
  case (Inl e)
  then show ?thesis by (auto simp: startup_def chosenProvider_def Let_def)
next
  case (Inr p)
  then show ?thesis
    by (simp add: startup_def chosenProvider_def servesLocally_def Let_def split del: if_split)
      (auto split: if_splits)
qed

text \<open>
  The guard against running without any DNS service does not see the default: with the
  default provider and \<^verbatim>\<open>--no-dns\<close> the operator starts with the provider that does nothing
  and without a server.
\<close>

lemma no_dns_serves_nothing:
  "\<exists>v. startup env (defaultFlags\<lparr>fl_noDNS := True\<rparr>)
     = Inr \<lparr>su_provider = NoopProvider, su_verification = v, su_corefile = None\<rparr>"
  by (simp add: startup_def defaultFlags_def prov_New_def registry0_def prov_Register_def
      corednsFactory_def Let_def)

end
