(* ===== verification/Bootstrap.thy ===== *)
theory Bootstrap
  imports Server_Main Owner_Controllers Record_Controller
begin

text \<open>
  How the operator comes up: \<^verbatim>\<open>Root.Run\<close> of \<^verbatim>\<open>cmd/k8s-dns/main.go\<close> with the three
  \<^verbatim>\<open>SetupWithManager\<close> methods and the webhook's registration, then \<^verbatim>\<open>Run\<close> of
  \<^verbatim>\<open>pkg/coredns/coredns.go\<close> in its own goroutine, and \<^verbatim>\<open>New\<close> and \<^verbatim>\<open>Run\<close> of the plugin. What
  they ask of controller-runtime and of caddy is recorded as a sequence of calls; whether
  such a call fails is a parameter.
\<close>

section \<open>Registering with the manager\<close>

datatype objectKind = KindDNSRecord | KindIngress | KindService

text \<open>
  A controller as the builder gets it. Without \<^verbatim>\<open>WithEventFilter\<close> every event passes, and
  without options one reconciliation runs at a time.
\<close>

record Controller =
  co_For :: objectKind
  co_Owns :: "objectKind list"
  co_Filter :: "watchEvent \<Rightarrow> bool"
  co_MaxConcurrent :: nat

text \<open>The calls, with the arguments that the program decides.\<close>

datatype bootCall =
    GetConfig
  | NewManager string bool string
  | EventRecorderFor string
  | IndexField objectKind string "ObjectMeta \<Rightarrow> string list"
  | CompleteController Controller
  | CompleteWebhook objectKind
  | GoServer string
  | StartManager providerVal string

type_synonym bootLib = "bootCall \<Rightarrow> go_error option"

type_synonym boot = "bootCall list \<Rightarrow> go_error option \<times> bootCall list"

definition callLib :: "bootLib \<Rightarrow> bootCall \<Rightarrow> boot" where
  "callLib lib c tr = (lib c, tr @ [c])"

text \<open>A \<^verbatim>\<open>go\<close> statement returns nothing, and getting an event recorder does not fail.\<close>

definition goCall :: "bootCall \<Rightarrow> boot" where
  "goCall c tr = (None, tr @ [c])"

definition nothing :: boot where
  "nothing tr = (None, tr)"

text \<open>\<^verbatim>\<open>if err := \<dots>; err != nil { return err }\<close>, or in \<^verbatim>\<open>main\<close> the exit.\<close>

definition andThen :: "boot \<Rightarrow> boot \<Rightarrow> boot" where
  "andThen f g tr = (case f tr of (Some e, tr1) \<Rightarrow> (Some e, tr1) | (None, tr1) \<Rightarrow> g tr1)"

definition dnsController :: Controller where
  "dnsController =
     \<lparr>co_For = KindDNSRecord, co_Owns = [], co_Filter = (\<lambda>_. True), co_MaxConcurrent = 8\<rparr>"

text \<open>The record controller also starts with an empty map of locks (\<open>lockInit\<close> of theory \<open>Locks\<close>).\<close>

definition dns_SetupWithManager :: "bootLib \<Rightarrow> boot" where
  "dns_SetupWithManager lib =
     andThen (goCall (EventRecorderFor ''DNSRecord'')) (callLib lib (CompleteController dnsController))"

definition ingressController :: Controller where
  "ingressController =
     \<lparr>co_For = KindIngress, co_Owns = [KindDNSRecord], co_Filter = (\<lambda>_. True), co_MaxConcurrent = 1\<rparr>"

definition ingress_SetupWithManager :: "owners \<Rightarrow> bootLib \<Rightarrow> boot" where
  "ingress_SetupWithManager M lib =
     (let fn = extractValue M ''networking.k8s.io/v1'' ''Ingress''
      in andThen (callLib lib (IndexField KindDNSRecord ownerKey fn))
           (callLib lib (CompleteController ingressController)))"

definition serviceController :: Controller where
  "serviceController =
     \<lparr>co_For = KindService, co_Owns = [KindDNSRecord], co_Filter = servicePredicate, co_MaxConcurrent = 1\<rparr>"

definition service_SetupWithManager :: "owners \<Rightarrow> bootLib \<Rightarrow> boot" where
  "service_SetupWithManager M lib =
     (let fn = extractValue M ''core/v1'' ''Service''
      in andThen (callLib lib (IndexField KindService ownerKey fn))
           (callLib lib (CompleteController serviceController)))"

definition SetupWebhookWithManager :: "bootLib \<Rightarrow> boot" where
  "SetupWebhookWithManager lib = callLib lib (CompleteWebhook KindDNSRecord)"

section \<open>The command\<close>

text \<open>All flags; those of \<^typ>\<open>Flags\<close> decide what \<^const>\<open>startup\<close> computes.\<close>

record Options =
  op_metricsAddr :: string
  op_enableLeaderElection :: bool
  op_enableWebhook :: bool
  op_flags :: Flags

definition defaultOptions :: Options where
  "defaultOptions =
     \<lparr>op_metricsAddr = '':4299'', op_enableLeaderElection = False, op_enableWebhook = False,
      op_flags = defaultFlags\<rparr>"

definition LeaderElectionID :: string where
  "LeaderElectionID = ''aa75d9c6.linka.cloud''"

text \<open>
  \<^verbatim>\<open>Root.Run\<close>. \<^const>\<open>startup\<close> is the part from the check of the provider to its creation,
  which calls nothing, together with the values that the flags give to the later steps.
\<close>

definition rootRun :: "owners \<Rightarrow> bootLib \<Rightarrow> getenv \<Rightarrow> Options \<Rightarrow> boot" where
  "rootRun M lib env opts =
     andThen (callLib lib GetConfig)
     (andThen (callLib lib (NewManager (op_metricsAddr opts) (op_enableLeaderElection opts) LeaderElectionID))
     (case startup env (op_flags opts) of
        Inl e \<Rightarrow> (\<lambda>tr. (Some e, tr))
      | Inr su \<Rightarrow>
          andThen (dns_SetupWithManager lib)
          (andThen (ingress_SetupWithManager M lib)
          (andThen (service_SetupWithManager M lib)
          (andThen (if op_enableWebhook opts then SetupWebhookWithManager lib else nothing)
          (andThen (case su_corefile su of None \<Rightarrow> nothing | Some conf \<Rightarrow> goCall (GoServer conf))
            (callLib lib (StartManager (su_provider su) (su_verification su)))))))))"

text \<open>
  \<^verbatim>\<open>os.Exit(1)\<close> after every error: the exit code that the main goroutine gives. The goroutine of
  the DNS server can end the process before that, see \<open>exitCodes\<close> below.
\<close>

definition exitCode :: "go_error option \<Rightarrow> nat" where
  "exitCode err = (if err = None then 0 else 1)"

section \<open>The DNS server\<close>

text \<open>
  \<^verbatim>\<open>caddy.LoadCaddyfile\<close>, which is given the loader to ask and the type of the server,
  \<^verbatim>\<open>caddy.Start\<close>, and \<^verbatim>\<open>caddy.IsUpgrade\<close>.
\<close>

record caddyLib =
  cy_LoadCaddyfile :: "(string \<Rightarrow> go_error + string) \<Rightarrow> string \<Rightarrow> go_error + string"
  cy_Start :: "string \<Rightarrow> go_error option"
  cy_IsUpgrade :: bool

datatype logOutput = Stdout | Stderr

datatype serverRun = Fatal logOutput go_error | Serving string

text \<open>\<^verbatim>\<open>log.Fatal\<close> ends the process.\<close>

definition mustLogFatal :: "caddyLib \<Rightarrow> go_error \<Rightarrow> serverRun" where
  "mustLogFatal C e = Fatal (if \<not> cy_IsUpgrade C then Stderr else Stdout) e"

definition confLoader :: "string \<Rightarrow> string \<Rightarrow> go_error + string" where
  "confLoader config _ = Inr config"

definition serverType :: string where
  "serverType = ''dns''"

definition corednsRun :: "caddyLib \<Rightarrow> string \<Rightarrow> serverRun" where
  "corednsRun C config =
     (case cy_LoadCaddyfile C (confLoader (corednsConfig config)) serverType of
        Inl e \<Rightarrow> mustLogFatal C e
      | Inr corefile \<Rightarrow>
          (case cy_Start C corefile of Some e \<Rightarrow> mustLogFatal C e | None \<Rightarrow> Serving corefile))"

text \<open>
  The exit codes that the process can have after the calls \<open>tr\<close>: that of the main goroutine, and
  1 if the server was started and its goroutine reaches \<^verbatim>\<open>log.Fatal\<close>, which may happen at any time
  before the main goroutine ends.
\<close>

definition serverFatal :: "caddyLib \<Rightarrow> bootCall \<Rightarrow> bool" where
  "serverFatal C c =
     (case c of GoServer conf \<Rightarrow> (case corednsRun C conf of Fatal _ _ \<Rightarrow> True | Serving _ \<Rightarrow> False) | _ \<Rightarrow> False)"

definition exitCodes :: "caddyLib \<Rightarrow> go_error option \<Rightarrow> bootCall list \<Rightarrow> nat list" where
  "exitCodes C err tr = exitCode err # (if list_ex (serverFatal C) tr then [1] else [])"

section \<open>The plugin\<close>

text \<open>
  \<^verbatim>\<open>Run\<close>: whether the handlers get installed, and the error it ends with. Both library
  calls may fail.
\<close>

definition providerRun :: "go_error option \<Rightarrow> go_error option \<Rightarrow> bool \<times> go_error option" where
  "providerRun informerErr startErr =
     (case informerErr of Some e \<Rightarrow> (False, Some e) | None \<Rightarrow> (True, startErr))"

text \<open>\<^verbatim>\<open>New\<close>: the provider, and what its goroutine writes to the log.\<close>

definition crds_New ::
  "go_error option \<Rightarrow> go_error option \<Rightarrow> go_error option \<Rightarrow> go_error option \<Rightarrow> string
     \<Rightarrow> go_error + 'z k8sProvider \<times> go_error list" where
  "crds_New confErr cacheErr informerErr startErr external =
     (case NewProvider confErr cacheErr (ParseIP external) of
        Inl e \<Rightarrow> Inl e
      | Inr p \<Rightarrow>
          Inr (p, case snd (providerRun informerErr startErr) of None \<Rightarrow> [] | Some e \<Rightarrow> [e]))"

section \<open>The intended sequence\<close>

text \<open>
  What is registered, and in which order everything is asked for when nothing fails. A list
  of calls is run until one fails; the goroutine of the server cannot fail here.
\<close>

definition registrations :: "owners \<Rightarrow> Options \<Rightarrow> bootCall list" where
  "registrations M opts =
     [EventRecorderFor ''DNSRecord'', CompleteController dnsController,
      IndexField KindDNSRecord ownerKey (extractValue M ''networking.k8s.io/v1'' ''Ingress''),
      CompleteController ingressController,
      IndexField KindService ownerKey (extractValue M ''core/v1'' ''Service''),
      CompleteController serviceController]
     @ (if op_enableWebhook opts then [CompleteWebhook KindDNSRecord] else [])"

definition prologue :: "Options \<Rightarrow> bootCall list" where
  "prologue opts =
     [GetConfig, NewManager (op_metricsAddr opts) (op_enableLeaderElection opts) LeaderElectionID]"

definition bootPlan :: "owners \<Rightarrow> Options \<Rightarrow> Startup \<Rightarrow> bootCall list" where
  "bootPlan M opts su =
     prologue opts @ registrations M opts @ (case su_corefile su of None \<Rightarrow> [] | Some conf \<Rightarrow> [GoServer conf])
     @ [StartManager (su_provider su) (su_verification su)]"

fun callError :: "bootLib \<Rightarrow> bootCall \<Rightarrow> go_error option" where
  "callError lib (GoServer conf) = None"
| "callError lib (EventRecorderFor n) = None"
| "callError lib c = lib c"

fun runCalls :: "bootLib \<Rightarrow> bootCall list \<Rightarrow> boot" where
  "runCalls lib [] tr = (None, tr)"
| "runCalls lib (c # cs) tr =
     (case callError lib c of Some e \<Rightarrow> (Some e, tr @ [c]) | None \<Rightarrow> runCalls lib cs (tr @ [c]))"

section \<open>Lemmas\<close>

lemma runCalls_append: "runCalls lib (cs @ ds) = andThen (runCalls lib cs) (runCalls lib ds)"
proof
  show "runCalls lib (cs @ ds) tr = andThen (runCalls lib cs) (runCalls lib ds) tr" for tr
    by (induction cs arbitrary: tr) (simp_all add: andThen_def split: option.splits)
qed

lemma callLib_runCalls: "callError lib c = lib c \<Longrightarrow> callLib lib c = runCalls lib [c]"
  by (rule ext) (simp add: callLib_def split: option.splits)

lemma goCall_runCalls: "callError lib c = None \<Longrightarrow> goCall c = runCalls lib [c]"
  by (rule ext) (simp add: goCall_def)

lemma nothing_runCalls: "nothing = runCalls lib []"
  by (rule ext) (simp add: nothing_def)

text \<open>The command runs the intended sequence, or stops where the provider cannot be made.\<close>

lemma rootRun_calls:
  "rootRun M lib env opts =
     (case startup env (op_flags opts) of
        Inl e \<Rightarrow> andThen (runCalls lib (prologue opts)) (\<lambda>tr. (Some e, tr))
      | Inr su \<Rightarrow> runCalls lib (bootPlan M opts su))"
proof (cases "startup env (op_flags opts)")
  case (Inl e)
  then show ?thesis
    by (intro ext) (simp add: rootRun_def prologue_def andThen_def callLib_def split: option.splits)
next
  case (Inr su)
  have s: "(case su_corefile su of None \<Rightarrow> nothing | Some conf \<Rightarrow> goCall (GoServer conf))
      = runCalls lib (case su_corefile su of None \<Rightarrow> [] | Some conf \<Rightarrow> [GoServer conf])"
    by (cases "su_corefile su") (simp_all add: nothing_runCalls [of lib] goCall_runCalls [of lib])
  show ?thesis
    by (simp add: rootRun_def Inr s dns_SetupWithManager_def ingress_SetupWithManager_def service_SetupWithManager_def
        SetupWebhookWithManager_def nothing_runCalls [of lib] goCall_runCalls [of lib] callLib_runCalls runCalls_append [symmetric]
        bootPlan_def prologue_def registrations_def del: runCalls.simps)
qed

lemma runCalls_result:
  "runCalls lib cs tr = (err, tr') \<Longrightarrow>
     (err = None \<longrightarrow> tr' = tr @ cs \<and> list_all (\<lambda>c. callError lib c = None) cs)
     \<and> (\<forall>e. err = Some e \<longrightarrow> (\<exists>ds c rest. cs = ds @ c # rest \<and> tr' = tr @ ds @ [c]
          \<and> callError lib c = Some e \<and> list_all (\<lambda>c. callError lib c = None) ds))"
proof (induction cs arbitrary: tr)
  case (Cons c cs)
  show ?case
  proof (cases "callError lib c")
    case None
    then have "runCalls lib cs (tr @ [c]) = (err, tr')" using Cons.prems by simp
    note IH = Cons.IH [OF this]
    show ?thesis
    proof (cases err)
      case (Some e)
      then obtain ds d rest where "cs = ds @ d # rest" "tr' = tr @ (c # ds) @ [d]" "callError lib d = Some e"
        "list_all (\<lambda>c. callError lib c = None) ds"
        using IH by auto
      then show ?thesis using None Some by (auto intro!: exI [of _ "c # ds"])
    qed (use IH None in simp)
  next
    case (Some e)
    then show ?thesis using Cons.prems by (auto intro!: exI [of _ "[]"])
  qed
qed simp

text \<open>The loader's file reaches the server whenever caddy asks it, as it is registered to.\<close>

definition asksLoader :: "caddyLib \<Rightarrow> bool" where
  "asksLoader C \<longleftrightarrow> (\<forall>loader ty. cy_LoadCaddyfile C loader ty = loader ty)"

lemma corednsRun_file:
  assumes "asksLoader C" and "conf \<noteq> []"
  shows "corednsRun C conf = (case cy_Start C conf of None \<Rightarrow> Serving conf | Some e \<Rightarrow> mustLogFatal C e)"
  using assms by (simp add: corednsRun_def asksLoader_def confLoader_def corednsConfig_def split: option.splits)

text \<open>A goroutine of the server in the trace comes from the flags, after all registrations.\<close>

lemma server_in_plan:
  assumes "startup env (op_flags opts) = Inr su" and "bootPlan M opts su = cs @ ds" and "GoServer conf \<in> set cs"
  shows "su_corefile su = Some conf \<and> set (prologue opts @ registrations M opts) \<subseteq> set cs"
proof -
  have n: "GoServer conf \<notin> set (prologue opts @ registrations M opts)"
    by (simp add: prologue_def registrations_def)
  have p: "bootPlan M opts su = (prologue opts @ registrations M opts)
      @ (case su_corefile su of None \<Rightarrow> [] | Some conf \<Rightarrow> [GoServer conf])
      @ [StartManager (su_provider su) (su_verification su)]"
    by (simp add: bootPlan_def)
  have "GoServer conf \<in> set (bootPlan M opts su)" using assms(2,3) by simp
  then have c: "su_corefile su = Some conf" unfolding p using n by (simp split: option.splits)
  obtain us where "cs = (prologue opts @ registrations M opts) @ us"
  proof (cases "length (prologue opts @ registrations M opts) \<le> length cs")
    case True
    then show ?thesis using that assms(2) unfolding p by (metis append_eq_append_conv_if append_take_drop_id)
  next
    case False
    then have "set cs \<subseteq> set (prologue opts @ registrations M opts)"
      using assms(2) unfolding p by (metis append_eq_append_conv_if nat_le_linear set_take_subset)
    then show ?thesis using n assms(3) by blast
  qed
  then show ?thesis using c by auto
qed

lemma startup_corefile:
  assumes "startup env f = Inr su" and "su_corefile su = Some conf"
  shows "servesLocally f \<and> conf \<noteq> []"
  using assms
  by (auto simp: startup_def servesLocally_def chosenProvider_def Let_def Render_def split: if_splits sum.splits)

text \<open>The manager comes last, with what the flags decide.\<close>

definition verifiedAgainst :: "Flags \<Rightarrow> string" where
  "verifiedAgainst f =
     (if servesLocally f then ''127.0.0.1:53''
      else ipString (if fl_verification f = [] then ParseIP ''1.1.1.1'' else fl_verification f) @ '':53'')"

lemma manager_in_plan:
  assumes "startup env (op_flags opts) = Inr su" and "bootPlan M opts su = cs @ ds" and "StartManager prov v \<in> set cs"
  shows "prov_New registry0 env (chosenProvider (op_flags opts)) = Inr prov
    \<and> ((\<exists>conf. GoServer conf \<in> set cs) \<longleftrightarrow> servesLocally (op_flags opts)) \<and> v = verifiedAgainst (op_flags opts)"
proof -
  let ?before = "prologue opts @ registrations M opts
      @ (case su_corefile su of None \<Rightarrow> [] | Some conf \<Rightarrow> [GoServer conf])"
  let ?last = "StartManager (su_provider su) (su_verification su)"
  have p: "bootPlan M opts su = ?before @ [?last]" by (simp add: bootPlan_def)
  have n: "StartManager prov v \<notin> set ?before"
    by (simp add: prologue_def registrations_def split: option.splits)
  have "ds = []"
  proof (rule ccontr)
    assume "ds \<noteq> []"
    then have "?before = cs @ butlast ds" using assms(2) p by (metis butlast_append butlast_snoc)
    then show False using n assms(3) by auto
  qed
  then have "cs = ?before @ [?last]" using assms(2) p by simp
  then have "StartManager prov v = ?last" "(\<exists>conf. GoServer conf \<in> set cs) \<longleftrightarrow> su_corefile su \<noteq> None"
    using assms(3) n by (auto simp: prologue_def registrations_def split: option.splits)
  then show ?thesis using startup_decisions [of env "op_flags opts"] assms(1) by (auto simp: verifiedAgainst_def)
qed

text \<open>
  A Corefile that caddy refuses takes the whole operator down: if the server was started and
  cannot start its servers, the process can end with 1 although the manager runs.
\<close>

lemma server_fatal_exit:
  assumes "asksLoader C" and "GoServer conf \<in> set tr" and "conf \<noteq> []" and "cy_Start C conf = Some e"
  shows "1 \<in> set (exitCodes C err tr)"
proof -
  have "serverFatal C (GoServer conf)"
    using corednsRun_file [OF assms(1,3)] assms(4) by (simp add: serverFatal_def mustLogFatal_def)
  then show ?thesis using assms(2) by (auto simp: exitCodes_def list_ex_iff)
qed

text \<open>\<^verbatim>\<open>setup\<close> starts the plugin through \<^verbatim>\<open>New\<close>, whatever becomes of the goroutine.\<close>

lemma crdsSetup_New:
  "crdsSetup confErr cacheErr C c =
     map_option (\<lambda>r.
       case r of
         External e \<Rightarrow>
           (case crds_New confErr cacheErr informerErr startErr e of
              Inl err \<Rightarrow> Inl (PluginErr (Errorf (''plugin/k8s_dns: '' @ error_text err)))
            | Inr (p, _) \<Rightarrow> Inr p)
       | _ \<Rightarrow> Inl r)
       (setupLoop C [] c)"
  unfolding crdsSetup_def crds_New_def
  by (intro arg_cong [of _ _ "\<lambda>f. map_option f _"] ext) (simp split: setupResult.splits sum.splits)

text \<open>
  An informer that cannot be had is only logged: the plugin is there, no handler is
  installed, and with no zones to match every query goes to the next plugin.
\<close>

lemma informer_error_only_logged:
  assumes "zonesMatch A [] q = []"
  shows "fst (providerRun (Some e) startErr) = False
    \<and> (\<exists>p. crds_New None None (Some e) startErr external = Inr (p, [e])
         \<and> ServeDNS A (p_zones p) (p_zones p) tcp fails q = NextPlugin)"
  using assms by (simp add: providerRun_def crds_New_def NewProvider_def providerInit_def noZones_def ServeDNS_def)

section \<open>Properties\<close>

text \<open>
  C31. How the operator comes up. It asks for a manager, registers the controllers of records,
  Ingresses and Services with their indexes, then the webhook if enabled, then starts the
  DNS server if the flags say so, and at last the manager: the calls made are always a
  beginning of this sequence. It ends without an error exactly when the flags are sound and
  every call succeeds; otherwise the error is that of the flags, after which nothing is
  registered, or that of the last call made. Whenever the server is started, everything
  is registered before, and the server runs the rendered file. Whenever the manager is
  started, it has the provider that the flags name, the server runs exactly if that is
  \<^verbatim>\<open>coredns\<close> and \<^verbatim>\<open>--no-dns\<close> is not given, and exactly then records are verified against it.
\<close>

theorem operator_starts:
  assumes "rootRun M lib env opts [] = (err, tr)"
  shows "(exitCode err = 0 \<longleftrightarrow> (\<exists>su. startup env (op_flags opts) = Inr su \<and> tr = bootPlan M opts su
            \<and> list_all (\<lambda>c. callError lib c = None) tr))
    \<and> (\<forall>e. err = Some e \<longrightarrow>
         startup env (op_flags opts) = Inl e \<and> tr = prologue opts
         \<or> (\<exists>c rest ds. tr = ds @ [c] \<and> callError lib c = Some e \<and> list_all (\<lambda>c. callError lib c = None) ds
              \<and> (case startup env (op_flags opts) of
                   Inl _ \<Rightarrow> prologue opts = tr @ rest
                 | Inr su \<Rightarrow> bootPlan M opts su = tr @ rest)))
    \<and> (\<forall>conf. GoServer conf \<in> set tr \<longrightarrow>
         servesLocally (op_flags opts) \<and> set (registrations M opts) \<subseteq> set tr
         \<and> (asksLoader C \<longrightarrow> corednsRun C conf
              = (case cy_Start C conf of None \<Rightarrow> Serving conf | Some e \<Rightarrow> mustLogFatal C e)))
    \<and> (\<forall>prov v. StartManager prov v \<in> set tr \<longrightarrow>
         prov_New registry0 env (chosenProvider (op_flags opts)) = Inr prov
         \<and> ((\<exists>conf. GoServer conf \<in> set tr) \<longleftrightarrow> servesLocally (op_flags opts))
         \<and> v = verifiedAgainst (op_flags opts))"
proof (cases "startup env (op_flags opts)")
  case (Inl x)
  obtain err1 tr1 where r: "runCalls lib (prologue opts) [] = (err1, tr1)" by fastforce
  note R = runCalls_result [OF r, simplified]
  have "GoServer conf \<notin> set (prologue opts)" "StartManager prov v \<notin> set (prologue opts)" for conf prov v
    by (simp_all add: prologue_def)
  then show ?thesis
    using assms R
    by (cases err1) (auto simp: rootRun_calls Inl andThen_def r exitCode_def)
next
  case (Inr su)
  then have r: "runCalls lib (bootPlan M opts su) [] = (err, tr)" using assms by (simp add: rootRun_calls)
  note R = runCalls_result [OF r, simplified]
  have p: "\<exists>ds. bootPlan M opts su = tr @ ds" using R by (cases err) auto
  have "servesLocally (op_flags opts) \<and> set (registrations M opts) \<subseteq> set tr
      \<and> (asksLoader C \<longrightarrow> corednsRun C conf
           = (case cy_Start C conf of None \<Rightarrow> Serving conf | Some e \<Rightarrow> mustLogFatal C e))"
    if "GoServer conf \<in> set tr" for conf
    using p server_in_plan [OF Inr _ that, of M] startup_corefile [OF Inr] corednsRun_file by auto
  moreover have "prov_New registry0 env (chosenProvider (op_flags opts)) = Inr prov
         \<and> ((\<exists>conf. GoServer conf \<in> set tr) \<longleftrightarrow> servesLocally (op_flags opts)) \<and> v = verifiedAgainst (op_flags opts)"
    if "StartManager prov v \<in> set tr" for prov v
    using p manager_in_plan [OF Inr _ that, of M] by blast
  moreover have "exitCode err = 0 \<longleftrightarrow> (tr = bootPlan M opts su \<and> list_all (\<lambda>c. callError lib c = None) tr)"
    using R by (cases err) (auto simp: exitCode_def)
  ultimately show ?thesis using R Inr by (auto 0 4)
qed

definition exCaddy :: caddyLib where
  "exCaddy = \<lparr>cy_LoadCaddyfile = (\<lambda>loader. loader), cy_Start = (\<lambda>_. None), cy_IsUpgrade = False\<rparr>"

theorem operator_starts_witness:
  "\<exists>tr conf. rootRun exOwners (\<lambda>_. None) (\<lambda>_. []) defaultOptions [] = (None, tr)
     \<and> GoServer conf \<in> set tr \<and> CompleteController serviceController \<in> set tr
     \<and> corednsRun exCaddy conf = Serving conf"
proof -
  obtain su where su: "startup (\<lambda>_. []) defaultFlags = Inr su" "su_corefile su \<noteq> None"
    by (simp add: startup_def defaultFlags_def prov_New_def registry0_def prov_Register_def corednsFactory_def Let_def)
  then obtain conf where conf: "su_corefile su = Some conf" by auto
  have f: "op_flags defaultOptions = defaultFlags" by (simp add: defaultOptions_def)
  have r: "rootRun exOwners (\<lambda>_. None) (\<lambda>_. []) defaultOptions [] = (None, bootPlan exOwners defaultOptions su)"
    by (simp add: rootRun_calls f su(1) bootPlan_def prologue_def registrations_def conf)
  have g: "GoServer conf \<in> set (bootPlan exOwners defaultOptions su)" by (simp add: bootPlan_def conf)
  have "asksLoader exCaddy" by (simp add: asksLoader_def exCaddy_def)
  then have "set (registrations exOwners defaultOptions) \<subseteq> set (bootPlan exOwners defaultOptions su)"
    "corednsRun exCaddy conf = Serving conf"
    using operator_starts [OF r, of exCaddy] g by (auto simp: exCaddy_def)
  then show ?thesis using r g by (auto simp: registrations_def)
qed

end
