(* ===== verification/Plugin_Machine.thy ===== *)
theory Plugin_Machine
  imports Coredns_Plugin
begin

text \<open>
  Component \<^verbatim>\<open>pkg/coredns/k8s_dns\<close>, concurrently: the informer's handlers change the records
  and rebuild the zones under \<^verbatim>\<open>p.mu\<close>, while queries read the zones. \<^verbatim>\<open>Zones()\<close> holds the
  lock only while it copies the struct \<^verbatim>\<open>file.Zones\<close>; the copy shares the map \<^verbatim>\<open>Z\<close> with the
  provider, and \<^verbatim>\<open>ServeDNS\<close> looks into that map without any lock. Maps are therefore objects
  in a store, and a rebuild is as many steps as the loops of \<^verbatim>\<open>sync\<close> have iterations.
\<close>

section \<open>The handlers' part\<close>

text \<open>What the informer delivers.\<close>

datatype cacheEvent = EvAdd cacheObj | EvUpdate cacheObj cacheObj | EvDelete cacheObj

text \<open>The records after the first critical section, or \<open>None\<close> where the handler returns before it.\<close>

fun eventRecords :: "ext \<Rightarrow> cacheEvent \<Rightarrow> (string, rr) fmap \<Rightarrow> (string, rr) fmap option" where
  "eventRecords E (EvAdd ob) m =
     (case k8s_makeRecord E ob of
        Inl _ \<Rightarrow> None
      | Inr (rr, r) \<Rightarrow> if activeRecord r then Some (fmupd (rrString E rr) rr m) else None)"
| "eventRecords E (EvUpdate old new) m =
     (case k8s_makeRecord E old of
        Inl _ \<Rightarrow> None
      | Inr (oldRR, _) \<Rightarrow>
          (case k8s_makeRecord E new of
             Inl _ \<Rightarrow> None
           | Inr (nextRR, r) \<Rightarrow>
               (let m' = fmdrop (rrString E oldRR) m
                in Some (if activeRecord r then fmupd (rrString E nextRR) nextRR m' else m'))))"
| "eventRecords E (EvDelete ob) m =
     (case k8s_makeRecord E ob of
        Inl _ \<Rightarrow> None
      | Inr (rr, _) \<Rightarrow> Some (fmdrop (rrString E rr) m))"

fun handleEvent :: "ext \<Rightarrow> ('z k8sProvider \<Rightarrow> 'z k8sProvider) \<Rightarrow> cacheEvent \<Rightarrow> 'z k8sProvider \<Rightarrow> 'z k8sProvider" where
  "handleEvent E resync (EvAdd ob) p = addFunc E resync ob p"
| "handleEvent E resync (EvUpdate old new) p = updateFunc E resync old new p"
| "handleEvent E resync (EvDelete ob) p = deleteFunc E resync ob p"

text \<open>The handlers are this change of the records followed by \<^verbatim>\<open>sync\<close>.\<close>

lemma handleEvent_records:
  "handleEvent E resync ev p =
     (case eventRecords E ev (p_records p) of None \<Rightarrow> p | Some m \<Rightarrow> resync (p\<lparr>p_records := m\<rparr>))"
  by (cases ev)
    (auto simp: addFunc_def updateFunc_def deleteFunc_def activeRecord_def Let_def
      split: sum.splits prod.splits)

section \<open>The machine\<close>

text \<open>
  Where the handler is: waiting for an event; between its two critical sections; in the first
  or in the second loop of \<^verbatim>\<open>sync\<close>, with what is left of the iteration. A query has read
  nothing, the names, or the map; or it has its zone.
\<close>

datatype writerPc = Waiting | Unsynced | Inserting "go_error list" "rr list" | Completing "string list"

datatype 'z readerPc =
    NoQuery
  | HasNames string "string list"
  | HasMap string "string list" nat
  | HasZone string "string list" "'z option"

record 'z plugState =
  pm_store :: "nat \<Rightarrow> (string, 'z) fmap"
  pm_fresh :: nat
  pm_Names :: "string list"
  pm_Z :: nat
  pm_conf :: "'z k8sProvider"
  pm_writer :: writerPc
  pm_readers :: "nat \<Rightarrow> 'z readerPc"
  pm_past :: "'z Zones list"

text \<open>
  \<^verbatim>\<open>pm_conf\<close> holds the records and the settings of the provider (its own zones field is not
  used), and \<^verbatim>\<open>pm_past\<close> records, for the statements, every value that the zones had when the
  lock was released.
\<close>

definition currentZones :: "'z plugState \<Rightarrow> 'z Zones" where
  "currentZones s = \<lparr>zs_Names = pm_Names s, zs_Z = pm_store s (pm_Z s)\<rparr>"

definition setZones :: "'z Zones \<Rightarrow> 'z plugState \<Rightarrow> 'z plugState" where
  "setZones zs s = s\<lparr>pm_Names := zs_Names zs, pm_store := (pm_store s)(pm_Z s := zs_Z zs)\<rparr>"

text \<open>Outside \<^verbatim>\<open>p.mu.Lock()\<close> \<dots> \<^verbatim>\<open>p.mu.Unlock()\<close> of \<^verbatim>\<open>sync\<close>, readers may enter.\<close>

definition unlocked :: "'z plugState \<Rightarrow> bool" where
  "unlocked s \<longleftrightarrow> pm_writer s = Waiting \<or> pm_writer s = Unsynced"

definition release :: "'z plugState \<Rightarrow> 'z plugState" where
  "release s = s\<lparr>pm_writer := Waiting, pm_past := pm_past s @ [currentZones s]\<rparr>"

definition plugInit :: "IP \<Rightarrow> 'z plugState" where
  "plugInit ip =
     \<lparr>pm_store = (\<lambda>_. fmempty), pm_fresh = 1, pm_Names = [], pm_Z = 0, pm_conf = providerInit ip,
      pm_writer = Waiting, pm_readers = (\<lambda>_. NoQuery), pm_past = [noZones]\<rparr>"

inductive plugStep :: "ext \<Rightarrow> 'z zoneLib \<Rightarrow> 'z answerLib \<Rightarrow> 'z plugState \<Rightarrow> 'z plugState \<Rightarrow> bool"
  for E :: ext and L :: "'z zoneLib" and A :: "'z answerLib" where
  event: "pm_writer s = Waiting \<Longrightarrow> eventRecords E ev (p_records (pm_conf s)) = Some m \<Longrightarrow>
     plugStep E L A s (s\<lparr>pm_conf := (pm_conf s)\<lparr>p_records := m\<rparr>, pm_writer := Unsynced\<rparr>)"
| begin_sync: "pm_writer s = Unsynced \<Longrightarrow> distinct ks \<Longrightarrow> set ks = fmdom' (p_records (pm_conf s)) \<Longrightarrow>
     plugStep E L A s
       (setZones noZones (s\<lparr>pm_Z := pm_fresh s, pm_fresh := Suc (pm_fresh s),
          pm_conf := syncDefaults (pm_conf s),
          pm_writer := Inserting [] (List.map_filter (fmlookup (p_records (pm_conf s))) ks)\<rparr>))"
| insert_one: "pm_writer s = Inserting merr (v # vs) \<Longrightarrow>
     insertRecord E L v (merr, currentZones s) = (merr', zs) \<Longrightarrow>
     plugStep E L A s (setZones zs (s\<lparr>pm_writer := Inserting merr' vs\<rparr>))"
| range_zones: "pm_writer s = Inserting merr [] \<Longrightarrow> distinct ks \<Longrightarrow> set ks = fmdom' (zs_Z (currentZones s)) \<Longrightarrow>
     plugStep E L A s (s\<lparr>pm_writer := Completing ks\<rparr>)"
| complete_one: "pm_writer s = Completing (k # ks) \<Longrightarrow> fmlookup (zs_Z (currentZones s)) k = Some z \<Longrightarrow>
     completeZone L (pm_conf s) k z = (None, z1) \<Longrightarrow>
     plugStep E L A s (setZones ((currentZones s)\<lparr>zs_Z := fmupd k z1 (zs_Z (currentZones s))\<rparr>)
       (s\<lparr>pm_writer := Completing ks\<rparr>))"
| complete_fails: "pm_writer s = Completing (k # ks) \<Longrightarrow> fmlookup (zs_Z (currentZones s)) k = Some z \<Longrightarrow>
     completeZone L (pm_conf s) k z = (Some e, z1) \<Longrightarrow>
     plugStep E L A s (release (setZones ((currentZones s)\<lparr>zs_Z := fmupd k z1 (zs_Z (currentZones s))\<rparr>) s))"
| end_sync: "pm_writer s = Completing [] \<Longrightarrow> plugStep E L A s (release s)"
| read_names: "pm_readers s i = NoQuery \<Longrightarrow> unlocked s \<Longrightarrow>
     plugStep E L A s (s\<lparr>pm_readers := (pm_readers s)(i := HasNames q (pm_Names s))\<rparr>)"
| next_plugin: "pm_readers s i = HasNames q ns \<Longrightarrow> zonesMatch A ns q = [] \<Longrightarrow>
     plugStep E L A s (s\<lparr>pm_readers := (pm_readers s)(i := NoQuery)\<rparr>)"
| read_map: "pm_readers s i = HasNames q ns \<Longrightarrow> zonesMatch A ns q \<noteq> [] \<Longrightarrow> unlocked s \<Longrightarrow>
     plugStep E L A s (s\<lparr>pm_readers := (pm_readers s)(i := HasMap q ns (pm_Z s))\<rparr>)"
| look_up: "pm_readers s i = HasMap q ns a \<Longrightarrow>
     plugStep E L A s
       (s\<lparr>pm_readers := (pm_readers s)(i := HasZone q ns (fmlookup (pm_store s a) (zonesMatch A ns q)))\<rparr>)"
| answered: "pm_readers s i = HasZone q ns z \<Longrightarrow>
     plugStep E L A s (s\<lparr>pm_readers := (pm_readers s)(i := NoQuery)\<rparr>)"

section \<open>What is published\<close>

text \<open>\<open>zs\<close> is what \<^verbatim>\<open>sync\<close> makes of the provider \<open>p\<close>, for some order of the two iterations.\<close>

definition synced :: "ext \<Rightarrow> 'z zoneLib \<Rightarrow> 'z k8sProvider \<Rightarrow> 'z Zones \<Rightarrow> bool" where
  "synced E L p zs \<longleftrightarrow>
     (\<exists>ks zks. distinct ks \<and> set ks = fmdom' (p_records p) \<and> distinct zks
        \<and> set zks = fmdom' (zs_Z (snd (fold (insertRecord E L) (List.map_filter (fmlookup (p_records p)) ks) ([], noZones))))
        \<and> zs = p_zones (snd (sync E L (\<lambda>_. ks) (\<lambda>_. zks) p)))"

text \<open>A rebuild in progress: what the remaining iterations will make of the zones as they are.\<close>

definition rebuilding :: "ext \<Rightarrow> 'z zoneLib \<Rightarrow> 'z plugState \<Rightarrow> bool" where
  "rebuilding E L s \<longleftrightarrow>
     syncDefaults (pm_conf s) = pm_conf s \<and>
     (\<exists>ks errs zs. distinct ks \<and> set ks = fmdom' (p_records (pm_conf s))
        \<and> fold (insertRecord E L) (List.map_filter (fmlookup (p_records (pm_conf s))) ks) ([], noZones) = (errs, zs)
        \<and> (case pm_writer s of
             Inserting merr vs \<Rightarrow> fold (insertRecord E L) vs (merr, currentZones s) = (errs, zs)
           | Completing rest \<Rightarrow>
               (\<exists>zks. distinct zks \<and> set zks = fmdom' (zs_Z zs) \<and> zs_Names zs = zs_Names (currentZones s)
                  \<and> snd (completeLoop L (pm_conf s) rest (zs_Z (currentZones s)))
                     = snd (completeLoop L (pm_conf s) zks (zs_Z zs)))
           | _ \<Rightarrow> True))"

text \<open>What a query holds comes from versions that were published, the map not before the names.\<close>

definition twoVersions :: "'z Zones list \<Rightarrow> ('z Zones \<Rightarrow> 'z Zones \<Rightarrow> bool) \<Rightarrow> bool" where
  "twoVersions past P \<longleftrightarrow> (\<exists>j k. j \<le> k \<and> k < length past \<and> P (past ! j) (past ! k))"

definition holdsPast :: "'z answerLib \<Rightarrow> 'z plugState \<Rightarrow> 'z readerPc \<Rightarrow> bool" where
  "holdsPast A s pc =
     (case pc of
        NoQuery \<Rightarrow> True
      | HasNames q ns \<Rightarrow> twoVersions (pm_past s) (\<lambda>zs _. ns = zs_Names zs)
      | HasMap q ns a \<Rightarrow> zonesMatch A ns q \<noteq> [] \<and> a < pm_fresh s \<and> (unlocked s \<or> a \<noteq> pm_Z s) \<and>
          twoVersions (pm_past s) (\<lambda>zs zs'. ns = zs_Names zs \<and> pm_store s a = zs_Z zs')
      | HasZone q ns z \<Rightarrow> zonesMatch A ns q \<noteq> [] \<and>
          twoVersions (pm_past s) (\<lambda>zs zs'. ns = zs_Names zs \<and> z = fmlookup (zs_Z zs') (zonesMatch A ns q)))"

definition plugInv :: "ext \<Rightarrow> 'z zoneLib \<Rightarrow> 'z answerLib \<Rightarrow> 'z plugState \<Rightarrow> bool" where
  "plugInv E L A s \<longleftrightarrow>
     pm_Z s < pm_fresh s \<and> pm_past s \<noteq> []
     \<and> (\<forall>zs \<in> set (pm_past s). \<exists>p. synced E L p zs)
     \<and> (unlocked s \<longrightarrow> currentZones s = last (pm_past s))
     \<and> (pm_writer s = Waiting \<longrightarrow> synced E L (pm_conf s) (currentZones s))
     \<and> (\<not> unlocked s \<longrightarrow> rebuilding E L s)
     \<and> (\<forall>i. holdsPast A s (pm_readers s i))"

section \<open>Lemmas\<close>

lemma syncDefaults_idem [simp]: "syncDefaults (syncDefaults p) = syncDefaults p"
  by (simp add: syncDefaults_def defaultHostmaster_def defaultTTL_def defaultApex_def)

lemma setZones_sel [simp]:
  "currentZones (setZones zs s) = zs" "pm_fresh (setZones zs s) = pm_fresh s" "pm_Z (setZones zs s) = pm_Z s"
  "pm_conf (setZones zs s) = pm_conf s" "pm_writer (setZones zs s) = pm_writer s"
  "pm_readers (setZones zs s) = pm_readers s" "pm_past (setZones zs s) = pm_past s"
  "a \<noteq> pm_Z s \<Longrightarrow> pm_store (setZones zs s) a = pm_store s a" "unlocked (setZones zs s) = unlocked s"
  by (simp_all add: setZones_def currentZones_def unlocked_def)

lemma release_sel [simp]:
  "currentZones (release s) = currentZones s" "pm_fresh (release s) = pm_fresh s" "pm_Z (release s) = pm_Z s"
  "pm_conf (release s) = pm_conf s" "pm_writer (release s) = Waiting" "pm_readers (release s) = pm_readers s"
  "pm_past (release s) = pm_past s @ [currentZones s]" "pm_store (release s) = pm_store s" "unlocked (release s)"
  by (simp_all add: release_def currentZones_def unlocked_def)

lemma sync_zones_value:
  assumes "syncDefaults p = p" and "fold (insertRecord E L) (List.map_filter (fmlookup (p_records p)) ks) ([], noZones) = (errs, zs)"
  shows "p_zones (snd (sync E L (\<lambda>_. ks) (\<lambda>_. zks) p)) = zs\<lparr>zs_Z := snd (completeLoop L p zks (zs_Z zs))\<rparr>"
  using assms by (simp add: sync_def Let_def split: prod.splits option.splits)

lemma synced_empty: "p_records p = fmempty \<Longrightarrow> synced E L p noZones"
  unfolding synced_def
  by (intro exI [of _ "[]"]) (simp add: sync_def Let_def noZones_def List.map_filter_def)

text \<open>When the loops are through, the zones are what \<^verbatim>\<open>sync\<close> makes of the records.\<close>

lemma rebuilt_synced:
  assumes "rebuilding E L s" and "pm_writer s = Completing rest"
    and "zs_Z zs' = snd (completeLoop L (pm_conf s) rest (zs_Z (currentZones s)))"
    and "zs_Names zs' = zs_Names (currentZones s)"
  shows "synced E L (pm_conf s) zs'"
proof -
  let ?p = "pm_conf s"
  obtain ks errs zs zks where r: "syncDefaults ?p = ?p" "distinct ks" "set ks = fmdom' (p_records ?p)"
    "fold (insertRecord E L) (List.map_filter (fmlookup (p_records ?p)) ks) ([], noZones) = (errs, zs)"
    "distinct zks" "set zks = fmdom' (zs_Z zs)" "zs_Names zs = zs_Names (currentZones s)"
    "snd (completeLoop L ?p rest (zs_Z (currentZones s))) = snd (completeLoop L ?p zks (zs_Z zs))"
    using assms(1,2) by (auto simp: rebuilding_def)
  have "zs' = zs\<lparr>zs_Z := snd (completeLoop L ?p zks (zs_Z zs))\<rparr>"
    using assms(3,4) r(7,8) by (simp add: Zones.equality)
  then have "zs' = p_zones (snd (sync E L (\<lambda>_. ks) (\<lambda>_. zks) ?p))"
    using sync_zones_value [OF r(1,4)] by simp
  then show ?thesis unfolding synced_def using r(2,3,5,6) by (intro exI conjI) (simp_all add: r(4))
qed

text \<open>What queries hold survives every step of the handler.\<close>

lemma twoVersions_append: "twoVersions past P \<Longrightarrow> twoVersions (past @ zss) P"
  unfolding twoVersions_def
proof (elim exE conjE)
  fix j k
  assume "j \<le> k" "k < length past" "P (past ! j) (past ! k)"
  then show "\<exists>j k. j \<le> k \<and> k < length (past @ zss) \<and> P ((past @ zss) ! j) ((past @ zss) ! k)"
    by - (rule exI [of _ j], rule exI [of _ k], simp add: nth_append)
qed

lemma twoVersions_mono: "twoVersions past P \<Longrightarrow> (\<And>zs zs'. P zs zs' \<Longrightarrow> Q zs zs') \<Longrightarrow> twoVersions past Q"
  unfolding twoVersions_def by blast

text \<open>The latest version can always be the second one.\<close>

lemma twoVersions_last:
  assumes "twoVersions past (\<lambda>zs _. Q zs)"
  shows "twoVersions past (\<lambda>zs zs'. Q zs \<and> zs' = last past)"
proof -
  obtain j where "j < length past" "Q (past ! j)"
    using assms by (auto simp: twoVersions_def intro: le_less_trans)
  then show ?thesis
    unfolding twoVersions_def
    by - (rule exI [of _ j], rule exI [of _ "length past - 1"], cases past, auto simp: last_conv_nth)
qed

lemma twoVersions_now: "Q (last past) \<Longrightarrow> past \<noteq> [] \<Longrightarrow> twoVersions past (\<lambda>zs _. Q zs)"
  unfolding twoVersions_def
  by (rule exI [of _ "length past - 1"], rule exI [of _ "length past - 1"]) (simp add: last_conv_nth)

lemma holdsPast_mono:
  assumes "holdsPast A s pc" and "pm_fresh s \<le> pm_fresh s'" and "pm_past s' = pm_past s @ zss"
    and "\<And>q ns a. pc = HasMap q ns a \<Longrightarrow> a < pm_fresh s \<Longrightarrow> unlocked s \<or> a \<noteq> pm_Z s \<Longrightarrow>
      (unlocked s' \<or> a \<noteq> pm_Z s') \<and> pm_store s' a = pm_store s a"
  shows "holdsPast A s' pc"
proof (cases pc)
  case (HasMap q ns a)
  then have h: "a < pm_fresh s" "unlocked s \<or> a \<noteq> pm_Z s" "zonesMatch A ns q \<noteq> []"
    "twoVersions (pm_past s) (\<lambda>zs zs'. ns = zs_Names zs \<and> pm_store s a = zs_Z zs')"
    using assms(1) by (simp_all add: holdsPast_def)
  show ?thesis
    using assms(4) [OF HasMap h(1,2)] twoVersions_append [OF h(4), of zss] h(1,3) assms(2,3) HasMap
    by (simp add: holdsPast_def)
qed (use assms(1,3) twoVersions_append in \<open>auto simp: holdsPast_def\<close>)

lemma plugInv_D:
  assumes "plugInv E L A s"
  shows "pm_Z s < pm_fresh s" "pm_past s \<noteq> []" "\<And>zs. zs \<in> set (pm_past s) \<Longrightarrow> \<exists>p. synced E L p zs"
    "unlocked s \<Longrightarrow> currentZones s = last (pm_past s)"
    "pm_writer s = Waiting \<Longrightarrow> synced E L (pm_conf s) (currentZones s)"
    "\<not> unlocked s \<Longrightarrow> rebuilding E L s" "\<And>i. holdsPast A s (pm_readers s i)"
  using assms unfolding plugInv_def by blast+

text \<open>A step of the handler inside the lock: it writes only to the map it has allocated.\<close>

lemma plugInv_writer:
  assumes "plugInv E L A s" and "\<not> unlocked s" and "pm_writer s' = pc" and "pc \<noteq> Waiting" and "pc \<noteq> Unsynced"
    and "s' = setZones zs (s\<lparr>pm_writer := pc\<rparr>)" and "rebuilding E L s'"
  shows "plugInv E L A s'"
proof -
  note D = plugInv_D [OF assms(1)]
  have u: "\<not> unlocked s'" using assms(3-5) by (simp add: unlocked_def)
  have "holdsPast A s' (pm_readers s i)" for i
    by (rule holdsPast_mono [where zss = "[]", OF D(7) [of i]]) (use assms(2,6) in auto)
  then show ?thesis using D(1-3) u assms(2,4-7) by (simp add: plugInv_def)
qed

lemma plugInv_release:
  assumes "plugInv E L A s" and "\<not> unlocked s" and "s' = release (setZones zs s)"
    and "synced E L (pm_conf s) zs"
  shows "plugInv E L A s'"
proof -
  note D = plugInv_D [OF assms(1)]
  have "holdsPast A s' (pm_readers s i)" for i
    by (rule holdsPast_mono [where zss = "[zs]", OF D(7) [of i]]) (use assms(2,3) in auto)
  then show ?thesis using D(1-3) assms(3,4) by (auto simp: plugInv_def)
qed

lemma readers_sel [simp]:
  "currentZones (s\<lparr>pm_readers := f\<rparr>) = currentZones s" "unlocked (s\<lparr>pm_readers := f\<rparr>) = unlocked s"
  "rebuilding E L (s\<lparr>pm_readers := f\<rparr>) = rebuilding E L s"
proof -
  show c: "currentZones (s\<lparr>pm_readers := f\<rparr>) = currentZones s" "unlocked (s\<lparr>pm_readers := f\<rparr>) = unlocked s"
    by (simp_all add: currentZones_def unlocked_def)
  show "rebuilding E L (s\<lparr>pm_readers := f\<rparr>) = rebuilding E L s"
    by (simp add: rebuilding_def c cong: writerPc.case_cong)
qed

lemma setZones_current: "setZones (currentZones s) s = s"
  by (simp add: setZones_def currentZones_def)

text \<open>A step of a query changes nothing but what that query holds.\<close>

lemma plugInv_reader:
  assumes "plugInv E L A s" and "s' = s\<lparr>pm_readers := (pm_readers s)(i := pc)\<rparr>" and "holdsPast A s pc"
  shows "plugInv E L A s'"
proof -
  have "holdsPast A s' x = holdsPast A s x" for x
    by (simp add: assms(2) holdsPast_def split: readerPc.splits)
  then show ?thesis using assms(1,3) by (simp add: plugInv_def assms(2))
qed

lemma writer_sel [simp]:
  "currentZones (s\<lparr>pm_writer := pc\<rparr>) = currentZones s" "currentZones (s\<lparr>pm_conf := p\<rparr>) = currentZones s"
  by (simp_all add: currentZones_def)

lemma writer_setZones: "s\<lparr>pm_writer := pc\<rparr> = setZones (currentZones s) (s\<lparr>pm_writer := pc\<rparr>)"
  by (simp add: setZones_def currentZones_def)

lemma insert_rebuilding:
  assumes "rebuilding E L s" and "pm_writer s = Inserting merr (v # vs)"
    and "insertRecord E L v (merr, currentZones s) = (merr', zs)"
  shows "rebuilding E L (setZones zs (s\<lparr>pm_writer := Inserting merr' vs\<rparr>))"
  using assms by (simp add: rebuilding_def)

lemma range_rebuilding:
  assumes "rebuilding E L s" and "pm_writer s = Inserting merr []"
    and "distinct ks" and "set ks = fmdom' (zs_Z (currentZones s))"
  shows "rebuilding E L (s\<lparr>pm_writer := Completing ks\<rparr>)"
  using assms by (auto simp: rebuilding_def)

lemma complete_rebuilding:
  assumes "rebuilding E L s" and "pm_writer s = Completing (k # ks)"
    and "fmlookup (zs_Z (currentZones s)) k = Some z" and "completeZone L (pm_conf s) k z = (None, z1)"
  shows "rebuilding E L (setZones ((currentZones s)\<lparr>zs_Z := fmupd k z1 (zs_Z (currentZones s))\<rparr>)
      (s\<lparr>pm_writer := Completing ks\<rparr>))"
  using assms by (simp add: rebuilding_def)

lemma begin_inv:
  assumes "plugInv E L A s" and "pm_writer s = Unsynced" and "distinct ks"
    and "set ks = fmdom' (p_records (pm_conf s))"
    and "s' = setZones noZones (s\<lparr>pm_Z := pm_fresh s, pm_fresh := Suc (pm_fresh s),
          pm_conf := syncDefaults (pm_conf s),
          pm_writer := Inserting [] (List.map_filter (fmlookup (p_records (pm_conf s))) ks)\<rparr>)"
  shows "plugInv E L A s'"
proof -
  note D = plugInv_D [OF assms(1)]
  have u: "\<not> unlocked s'" by (simp add: assms(5) unlocked_def)
  have "rebuilding E L s'"
    using assms(3,4) by (auto simp: assms(5) rebuilding_def intro!: exI [of _ ks])
  moreover have "holdsPast A s' (pm_readers s i)" for i
    by (rule holdsPast_mono [where zss = "[]", OF D(7) [of i]]) (auto simp: assms(5))
  moreover have "pm_writer s' \<noteq> Waiting" "pm_Z s' < pm_fresh s'" "pm_past s' = pm_past s" "pm_readers s' = pm_readers s"
    by (simp_all add: assms(5))
  ultimately show ?thesis using D(2,3) u by (simp add: plugInv_def)
qed

lemma event_inv:
  assumes "plugInv E L A s" and "pm_writer s = Waiting"
  shows "plugInv E L A (s\<lparr>pm_conf := p, pm_writer := Unsynced\<rparr>)"
proof -
  note D = plugInv_D [OF assms(1)]
  let ?s = "s\<lparr>pm_conf := p, pm_writer := Unsynced\<rparr>"
  have u: "unlocked s" "unlocked ?s" using assms(2) by (simp_all add: unlocked_def)
  have "holdsPast A ?s (pm_readers s i)" for i
    by (rule holdsPast_mono [where zss = "[]", OF D(7) [of i]]) (use u in auto)
  moreover have "currentZones ?s = currentZones s" by (simp add: currentZones_def)
  ultimately show ?thesis using D(1-4) u by (simp add: plugInv_def)
qed

text \<open>What a query holds after each of its three reads.\<close>

lemma names_held:
  assumes "plugInv E L A s" and "unlocked s"
  shows "holdsPast A s (HasNames q (pm_Names s))"
proof -
  note D = plugInv_D [OF assms(1)]
  have "pm_Names s = zs_Names (last (pm_past s))"
    using D(4) [OF assms(2)] by (metis Zones.select_convs(1) currentZones_def)
  then have "twoVersions (pm_past s) (\<lambda>zs _. pm_Names s = zs_Names zs)"
    using D(2) by (intro twoVersions_now)
  then show ?thesis by (simp add: holdsPast_def)
qed

lemma map_held:
  assumes "plugInv E L A s" and "pm_readers s i = HasNames q ns" and "zonesMatch A ns q \<noteq> []" and "unlocked s"
  shows "holdsPast A s (HasMap q ns (pm_Z s))"
proof -
  note D = plugInv_D [OF assms(1)]
  have "twoVersions (pm_past s) (\<lambda>zs zs'. ns = zs_Names zs \<and> zs' = last (pm_past s))"
    using D(7) [of i] assms(2) by (intro twoVersions_last) (simp add: holdsPast_def)
  then have "twoVersions (pm_past s) (\<lambda>zs zs'. ns = zs_Names zs \<and> pm_store s (pm_Z s) = zs_Z zs')"
    unfolding D(4) [OF assms(4), symmetric] by (rule twoVersions_mono) (simp add: currentZones_def)
  then show ?thesis using D(1) assms(3,4) by (simp add: holdsPast_def)
qed

lemma zone_held:
  assumes "plugInv E L A s" and "pm_readers s i = HasMap q ns a"
  shows "holdsPast A s (HasZone q ns (fmlookup (pm_store s a) (zonesMatch A ns q)))"
proof -
  have h: "zonesMatch A ns q \<noteq> []" "twoVersions (pm_past s) (\<lambda>zs zs'. ns = zs_Names zs \<and> pm_store s a = zs_Z zs')"
    using plugInv_D(7) [OF assms(1), of i] assms(2) by (simp_all add: holdsPast_def)
  from h(2) have "twoVersions (pm_past s) (\<lambda>zs zs'. ns = zs_Names zs
      \<and> fmlookup (pm_store s a) (zonesMatch A ns q) = fmlookup (zs_Z zs') (zonesMatch A ns q))"
    by (rule twoVersions_mono) simp
  then show ?thesis using h(1) by (simp add: holdsPast_def)
qed

lemma plugInv_step: "plugStep E L A s s' \<Longrightarrow> plugInv E L A s \<Longrightarrow> plugInv E L A s'"
proof (induction rule: plugStep.induct)
  case (event s ev m)
  then show ?case by (intro event_inv)
next
  case (begin_sync s ks)
  show ?case by (rule begin_inv [OF begin_sync(4,1,2,3) refl])
next
  case (insert_one s merr v vs merr' zs)
  then have u: "\<not> unlocked s" by (simp add: unlocked_def)
  show ?case
    by (rule plugInv_writer [OF insert_one(3) u _ _ _ refl insert_rebuilding [OF plugInv_D(6) [OF insert_one(3) u] insert_one(1,2)]])
      simp_all
next
  case (range_zones s merr ks)
  then have u: "\<not> unlocked s" by (simp add: unlocked_def)
  show ?case
    by (rule plugInv_writer [OF range_zones(4) u _ _ _ writer_setZones range_rebuilding [OF plugInv_D(6) [OF range_zones(4) u] range_zones(1-3)]])
      simp_all
next
  case (complete_one s k ks z z1)
  then have u: "\<not> unlocked s" by (simp add: unlocked_def)
  show ?case
    by (rule plugInv_writer [OF complete_one(4) u _ _ _ refl complete_rebuilding [OF plugInv_D(6) [OF complete_one(4) u] complete_one(1-3)]])
      simp_all
next
  case (complete_fails s k ks z e z1)
  then have u: "\<not> unlocked s" by (simp add: unlocked_def)
  show ?case
    by (rule plugInv_release [OF complete_fails(4) u refl rebuilt_synced [OF plugInv_D(6) [OF complete_fails(4) u] complete_fails(1)]])
      (use complete_fails(2,3) in simp_all)
next
  case (end_sync s)
  then have u: "\<not> unlocked s" by (simp add: unlocked_def)
  have "synced E L (pm_conf s) (currentZones s)"
    by (rule rebuilt_synced [OF plugInv_D(6) [OF end_sync(2) u] end_sync(1)]) simp_all
  then show ?case using plugInv_release [OF end_sync(2) u, of _ "currentZones s"] by (simp add: setZones_current)
next
  case (read_names s i q)
  show ?case by (rule plugInv_reader [OF read_names(3) refl names_held [OF read_names(3,2)]])
next
  case (read_map s i q ns)
  show ?case by (rule plugInv_reader [OF read_map(4) refl map_held [OF read_map(4,1-3)]])
next
  case (look_up s i q ns a)
  show ?case by (rule plugInv_reader [OF look_up(2) refl zone_held [OF look_up(2,1)]])
next
  case (next_plugin s i q ns)
  show ?case by (rule plugInv_reader [OF next_plugin(3) refl]) (simp add: holdsPast_def)
next
  case (answered s i q ns z)
  show ?case by (rule plugInv_reader [OF answered(2) refl]) (simp add: holdsPast_def)
qed

interpretation plugin: invariant_machine "plugStep E L A" "\<lambda>s. s = plugInit ip" "plugInv E L A" for E L A ip
proof
  show "plugInv E L A s" if "s = plugInit ip" for s :: "'a plugState"
  proof -
    have "synced E L (providerInit ip) noZones" by (rule synced_empty) (simp add: providerInit_def)
    then show ?thesis
      unfolding that by (auto simp: plugInv_def plugInit_def unlocked_def currentZones_def noZones_def holdsPast_def)
  qed
qed (rule plugInv_step)

section \<open>A rebuild can always finish\<close>

text \<open>From \<open>s\<close> the handler's own steps lead to a state in which it waits again.\<close>

definition finishes :: "ext \<Rightarrow> 'z zoneLib \<Rightarrow> 'z answerLib \<Rightarrow> 'z plugState \<Rightarrow> bool" where
  "finishes E L A s \<longleftrightarrow>
     (\<exists>s'. (plugStep E L A)\<^sup>*\<^sup>* s s' \<and> pm_writer s' = Waiting \<and> pm_readers s' = pm_readers s
        \<and> p_records (pm_conf s') = p_records (pm_conf s))"

lemma finishes_step:
  assumes "plugStep E L A s t" and "finishes E L A t" and "pm_readers t = pm_readers s"
    and "p_records (pm_conf t) = p_records (pm_conf s)"
  shows "finishes E L A s"
  using assms unfolding finishes_def by (metis converse_rtranclp_into_rtranclp)

lemma finishes_done:
  "plugStep E L A s t \<Longrightarrow> pm_writer t = Waiting \<Longrightarrow> pm_readers t = pm_readers s
     \<Longrightarrow> p_records (pm_conf t) = p_records (pm_conf s) \<Longrightarrow> finishes E L A s"
  unfolding finishes_def by blast

lemma finishes_completing:
  "pm_writer s = Completing ks \<Longrightarrow> set ks \<subseteq> fmdom' (zs_Z (currentZones s)) \<Longrightarrow> finishes E L A s"
proof (induction ks arbitrary: s)
  case Nil
  then show ?case by (intro finishes_done [OF plugStep.end_sync]) simp_all
next
  case (Cons k ks)
  then obtain z where z: "fmlookup (zs_Z (currentZones s)) k = Some z" by (auto simp: fmlookup_dom'_iff)
  obtain e z1 where c: "completeZone L (pm_conf s) k z = (e, z1)" by fastforce
  let ?zs = "(currentZones s)\<lparr>zs_Z := fmupd k z1 (zs_Z (currentZones s))\<rparr>"
  show ?case
  proof (cases e)
    case None
    let ?t = "setZones ?zs (s\<lparr>pm_writer := Completing ks\<rparr>)"
    have f: "finishes E L A ?t" using Cons.prems(2) by (intro Cons.IH) auto
    show ?thesis
      by (rule finishes_step [OF plugStep.complete_one [OF Cons.prems(1) z c [unfolded None]] f]) simp_all
  next
    case (Some x)
    show ?thesis
      by (rule finishes_done [OF plugStep.complete_fails [OF Cons.prems(1) z c [unfolded Some]]]) simp_all
  qed
qed

lemma finishes_inserting: "pm_writer s = Inserting merr vs \<Longrightarrow> finishes E L A s"
proof (induction vs arbitrary: s merr)
  case Nil
  obtain ks where ks: "set ks = fmdom' (zs_Z (currentZones s))" "distinct ks"
    using finite_distinct_list [OF finite_fmdom' [of "zs_Z (currentZones s)"]] by blast
  have f: "finishes E L A (s\<lparr>pm_writer := Completing ks\<rparr>)"
    by (rule finishes_completing [of _ ks]) (simp_all add: ks(1))
  show ?case by (rule finishes_step [OF plugStep.range_zones [OF Nil ks(2,1)] f]) simp_all
next
  case (Cons v vs)
  obtain merr' zs where i: "insertRecord E L v (merr, currentZones s) = (merr', zs)" by fastforce
  have f: "finishes E L A (setZones zs (s\<lparr>pm_writer := Inserting merr' vs\<rparr>))"
    by (rule Cons.IH [of _ merr']) simp
  show ?case by (rule finishes_step [OF plugStep.insert_one [OF Cons.prems i] f]) simp_all
qed

lemma finishes_unsynced:
  assumes "pm_writer s = Unsynced"
  shows "finishes E L A s"
proof -
  obtain ks where ks: "set ks = fmdom' (p_records (pm_conf s))" "distinct ks"
    using finite_distinct_list [OF finite_fmdom' [of "p_records (pm_conf s)"]] by blast
  let ?vs = "List.map_filter (fmlookup (p_records (pm_conf s))) ks"
  let ?t = "setZones noZones (s\<lparr>pm_Z := pm_fresh s, pm_fresh := Suc (pm_fresh s),
      pm_conf := syncDefaults (pm_conf s), pm_writer := Inserting [] ?vs\<rparr>)"
  have f: "finishes E L A ?t" by (rule finishes_inserting [of _ "[]" ?vs]) simp
  show ?thesis by (rule finishes_step [OF plugStep.begin_sync [OF assms ks(2,1)] f]) simp_all
qed

section \<open>Properties\<close>

lemma ServeDNS_serveZone:
  "zonesMatch A (zs_Names zs) q \<noteq> [] \<Longrightarrow>
     ServeDNS A zs zs' tcp fails q = serveZone A (fmlookup (zs_Z zs') (zonesMatch A (zs_Names zs) q)) tcp fails q"
  by (simp add: ServeDNS_def)

text \<open>
  C18. Queries and rebuilds do not disturb each other. Although a query looks into the map of
  zones without the lock, in every interleaving it sees a finished map: its answer is the
  one that \<^verbatim>\<open>ServeDNS\<close> gives on two versions of the zones that were published before it, the
  second not older than the first. Every published version is what \<^verbatim>\<open>sync\<close>, run in one go,
  makes of some records; while no handler runs, the current one is that of the records held;
  and a handler that has changed the records can always finish.
\<close>

theorem query_sees_published_zones:
  assumes "(plugStep E L A)\<^sup>*\<^sup>* (plugInit ip) s"
  shows "(pm_readers s i = HasZone q ns z \<longrightarrow>
      (\<exists>j k. j \<le> k \<and> k < length (pm_past s)
         \<and> ServeDNS A (pm_past s ! j) (pm_past s ! k) tcp fails q = serveZone A z tcp fails q))
    \<and> (\<forall>v \<in> set (pm_past s). \<exists>p. synced E L p v)
    \<and> (pm_writer s = Waiting \<longrightarrow> synced E L (pm_conf s) (currentZones s))
    \<and> (pm_writer s = Unsynced \<longrightarrow> finishes E L A s)"
proof -
  note D = plugInv_D [OF plugin.inv_reach [OF assms refl]]
  have "\<exists>j k. j \<le> k \<and> k < length (pm_past s)
      \<and> ServeDNS A (pm_past s ! j) (pm_past s ! k) tcp fails q = serveZone A z tcp fails q"
    if "pm_readers s i = HasZone q ns z"
  proof -
    have h: "zonesMatch A ns q \<noteq> []" "twoVersions (pm_past s)
        (\<lambda>zs zs'. ns = zs_Names zs \<and> z = fmlookup (zs_Z zs') (zonesMatch A ns q))"
      using D(7) [of i] that by (simp_all add: holdsPast_def)
    from h(2) have "twoVersions (pm_past s) (\<lambda>zs zs'. ServeDNS A zs zs' tcp fails q = serveZone A z tcp fails q)"
      by (rule twoVersions_mono) (use h(1) in \<open>simp add: ServeDNS_serveZone\<close>)
    then show ?thesis by (simp add: twoVersions_def)
  qed
  then show ?thesis using D(3,5) finishes_unsynced by blast
qed

text \<open>One event, its rebuild, and a query after it.\<close>

definition exMatchAll :: "(rr option \<times> rr list \<times> rr list) answerLib" where
  "exMatchAll = \<lparr>zonesMatch = (\<lambda>ns q. ''example.org.''), zoneExpired = (\<lambda>z. False),
     zoneLookup = (\<lambda>z q. ([], [], [], LNoData))\<rparr>"

theorem query_sees_published_zones_witness:
  "\<exists>s q ns z j k. (plugStep exExt exZones exMatchAll)\<^sup>*\<^sup>* (plugInit []) s
     \<and> pm_readers s 0 = HasZone q ns z \<and> pm_writer s = Waiting \<and> p_records (pm_conf s) \<noteq> fmempty \<and> j \<le> k
     \<and> ServeDNS exMatchAll (pm_past s ! j) (pm_past s ! k) True (\<lambda>m. False) q = serveZone exMatchAll z True (\<lambda>m. False) q"
proof -
  let ?step = "plugStep exExt exZones exMatchAll"
  obtain rr where t: "ToRR exExt exValid = Inr rr"
    by (simp add: ToRR_def specToRR_def exValid_def go_eval)
  have a: "activeRecord exValid" by (simp add: activeRecord_def exValid_def)
  let ?m = "fmupd (rrString exExt rr) rr fmempty :: (string, rr) fmap"
  have e: "eventRecords exExt (EvAdd (CachedRecord exValid)) (p_records (pm_conf (plugInit [] :: (rr option \<times> rr list \<times> rr list) plugState))) = Some ?m"
    by (simp add: makeRecord_plain [OF t] a plugInit_def providerInit_def)
  let ?s1 = "(plugInit [])\<lparr>pm_conf := (pm_conf (plugInit []))\<lparr>p_records := ?m\<rparr>, pm_writer := Unsynced\<rparr>"
  have 1: "?step (plugInit []) ?s1" by (rule plugStep.event [OF _ e]) (simp add: plugInit_def)
  obtain s2 where 2: "?step\<^sup>*\<^sup>* ?s1 s2" "pm_writer s2 = Waiting" "pm_readers s2 = pm_readers ?s1"
    "p_records (pm_conf s2) = ?m"
    using finishes_unsynced [of ?s1 exExt exZones exMatchAll] by (auto simp: finishes_def)
  have i: "pm_readers s2 0 = NoQuery" "unlocked s2" using 2 by (simp_all add: plugInit_def unlocked_def)
  let ?s3 = "s2\<lparr>pm_readers := (pm_readers s2)(0 := HasNames ''www.example.org.'' (pm_Names s2))\<rparr>"
  let ?s4 = "?s3\<lparr>pm_readers := (pm_readers ?s3)(0 := HasMap ''www.example.org.'' (pm_Names s2) (pm_Z ?s3))\<rparr>"
  let ?s5 = "?s4\<lparr>pm_readers := (pm_readers ?s4)(0 := HasZone ''www.example.org.'' (pm_Names s2)
      (fmlookup (pm_store ?s4 (pm_Z ?s3)) (zonesMatch exMatchAll (pm_Names s2) ''www.example.org.'')))\<rparr>"
  have 3: "?step s2 ?s3" by (rule plugStep.read_names [OF i])
  have 4: "?step ?s3 ?s4" by (rule plugStep.read_map) (use i in \<open>simp_all add: exMatchAll_def\<close>)
  have 5: "?step ?s4 ?s5" by (rule plugStep.look_up) simp
  have r: "?step\<^sup>*\<^sup>* (plugInit []) ?s5"
    using 1 2(1) 3 4 5 by (meson converse_rtranclp_into_rtranclp rtranclp.rtrancl_into_rtrancl)
  obtain z where z: "pm_readers ?s5 0 = HasZone ''www.example.org.'' (pm_Names s2) z" by simp
  have w: "pm_writer ?s5 = Waiting" "p_records (pm_conf ?s5) \<noteq> fmempty" using 2(2,4) by simp_all
  from query_sees_published_zones [OF r] z obtain j k where "j \<le> k"
    "ServeDNS exMatchAll (pm_past ?s5 ! j) (pm_past ?s5 ! k) True (\<lambda>m. False) ''www.example.org.'' = serveZone exMatchAll z True (\<lambda>m. False) ''www.example.org.''"
    by blast
  then show ?thesis using r z w by blast
qed

end
