(* ===== verification/Deep_Copy.thy ===== *)
theory Deep_Copy
  imports Example_Ext
begin

text \<open>
  Component \<^verbatim>\<open>api/v1alpha1/zz_generated.deepcopy.go\<close>: the copies that keep a reconciler's
  object apart from the one it compares with and from the informer's cache. Elsewhere in the
  development objects are values; here they are structs with pointers into a heap, so that
  sharing can be seen. The locale \<open>copier\<close> is the contract of a copying operation: the copy
  has the same value, lies in fresh memory and changes nothing that was there. It is
  interpreted by every generated function.
\<close>

section \<open>Memory\<close>

type_synonym addr = nat

text \<open>Structs with pointers: a pointer is an address or nil, a slice the address of its array.\<close>

record TXTRep =
  xt_Name :: string
  xt_Class :: u16
  xt_Ttl :: u32
  xt_Targets :: "addr option"

record SpecRep =
  xs_Active :: "addr option"
  xs_A :: "addr option"
  xs_CNAME :: "addr option"
  xs_TXT :: "addr option"
  xs_SRV :: "addr option"
  xs_MX :: "addr option"
  xs_Raw :: string

record StatusRep =
  xu_Record :: string
  xu_Active :: "addr option"
  xu_Provider :: string
  xu_ID :: string

text \<open>The metadata of an object and of a list are types of another package; their shared parts are
  one cell of the heap.\<close>

record RecordRep =
  xr_TypeMeta :: TypeMeta
  xr_Meta :: addr
  xr_Spec :: SpecRep
  xr_Status :: StatusRep

record ListRep =
  xl_TypeMeta :: TypeMeta
  xl_Meta :: addr
  xl_Items :: "addr option"

datatype heapVal =
    HBool bool | HA ARecord | HCNAME CNAMERecord | HSRV SRVRecord | HMX MXRecord
  | HStrings "string list" | HTXT TXTRep | HMeta ObjectMeta | HListMeta ListMeta
  | HSpec SpecRep | HStatus StatusRep | HRecord RecordRep | HRecords "RecordRep list" | HList ListRep

record heap =
  hp_cell :: "addr \<Rightarrow> heapVal option"
  hp_next :: addr

text \<open>An operation on the heap; \<open>None\<close> is an access outside the object it should find.\<close>

type_synonym 'a hop = "heap \<Rightarrow> ('a \<times> heap) option"

definition ret :: "'a \<Rightarrow> 'a hop" where
  "ret x h = Some (x, h)"

definition bindH :: "'a hop \<Rightarrow> ('a \<Rightarrow> 'b hop) \<Rightarrow> 'b hop" where
  "bindH m f h = (case m h of None \<Rightarrow> None | Some (x, h1) \<Rightarrow> f x h1)"

text \<open>\<^verbatim>\<open>new(T)\<close> followed by the assignment of its content.\<close>

definition alloc :: "heapVal \<Rightarrow> addr hop" where
  "alloc v h = Some (hp_next h, \<lparr>hp_cell = (hp_cell h)(hp_next h \<mapsto> v), hp_next = Suc (hp_next h)\<rparr>)"

definition readCell :: "(heapVal \<Rightarrow> 'a option) \<Rightarrow> addr \<Rightarrow> heap \<Rightarrow> 'a option" where
  "readCell un a h = Option.bind (hp_cell h a) un"

fun unBool :: "heapVal \<Rightarrow> bool option" where "unBool (HBool x) = Some x" | "unBool _ = None"
fun unA :: "heapVal \<Rightarrow> ARecord option" where "unA (HA x) = Some x" | "unA _ = None"
fun unCNAME :: "heapVal \<Rightarrow> CNAMERecord option" where "unCNAME (HCNAME x) = Some x" | "unCNAME _ = None"
fun unSRV :: "heapVal \<Rightarrow> SRVRecord option" where "unSRV (HSRV x) = Some x" | "unSRV _ = None"
fun unMX :: "heapVal \<Rightarrow> MXRecord option" where "unMX (HMX x) = Some x" | "unMX _ = None"
fun unStrings :: "heapVal \<Rightarrow> string list option" where "unStrings (HStrings x) = Some x" | "unStrings _ = None"
fun unTXT :: "heapVal \<Rightarrow> TXTRep option" where "unTXT (HTXT x) = Some x" | "unTXT _ = None"
fun unMeta :: "heapVal \<Rightarrow> ObjectMeta option" where "unMeta (HMeta x) = Some x" | "unMeta _ = None"
fun unListMeta :: "heapVal \<Rightarrow> ListMeta option" where "unListMeta (HListMeta x) = Some x" | "unListMeta _ = None"
fun unSpec :: "heapVal \<Rightarrow> SpecRep option" where "unSpec (HSpec x) = Some x" | "unSpec _ = None"
fun unStatus :: "heapVal \<Rightarrow> StatusRep option" where "unStatus (HStatus x) = Some x" | "unStatus _ = None"
fun unRecord :: "heapVal \<Rightarrow> RecordRep option" where "unRecord (HRecord x) = Some x" | "unRecord _ = None"
fun unRecords :: "heapVal \<Rightarrow> RecordRep list option" where "unRecords (HRecords x) = Some x" | "unRecords _ = None"
fun unList :: "heapVal \<Rightarrow> ListRep option" where "unList (HList x) = Some x" | "unList _ = None"

section \<open>The generated functions\<close>

text \<open>
  A nil pointer stays nil; otherwise a new object is allocated and filled by \<open>into\<close> from the
  old one. This is the body of every \<^verbatim>\<open>DeepCopy\<close> and of every pointer field.
\<close>

definition copyPtr :: "(heapVal \<Rightarrow> 'a option) \<Rightarrow> ('a \<Rightarrow> heapVal) \<Rightarrow> ('a \<Rightarrow> 'a hop) \<Rightarrow> addr option \<Rightarrow> addr option hop" where
  "copyPtr un mk into p h =
     (case p of
        None \<Rightarrow> Some (None, h)
      | Some a \<Rightarrow>
          (case readCell un a h of
             None \<Rightarrow> None
           | Some x \<Rightarrow> bindH (into x) (\<lambda>y. bindH (alloc (mk y)) (\<lambda>b. ret (Some b))) h))"

text \<open>The loop over a slice.\<close>

fun copyAll :: "('a \<Rightarrow> 'a hop) \<Rightarrow> 'a list \<Rightarrow> 'a list hop" where
  "copyAll c [] = ret []"
| "copyAll c (x # xs) = bindH (c x) (\<lambda>y. bindH (copyAll c xs) (\<lambda>ys. ret (y # ys)))"

definition ARecord_DeepCopyInto :: "ARecord \<Rightarrow> ARecord hop" where
  "ARecord_DeepCopyInto r = ret r"

definition ARecord_DeepCopy :: "addr option \<Rightarrow> addr option hop" where
  "ARecord_DeepCopy = copyPtr unA HA ARecord_DeepCopyInto"

definition CNAMERecord_DeepCopyInto :: "CNAMERecord \<Rightarrow> CNAMERecord hop" where
  "CNAMERecord_DeepCopyInto r = ret r"

definition CNAMERecord_DeepCopy :: "addr option \<Rightarrow> addr option hop" where
  "CNAMERecord_DeepCopy = copyPtr unCNAME HCNAME CNAMERecord_DeepCopyInto"

definition MXRecord_DeepCopyInto :: "MXRecord \<Rightarrow> MXRecord hop" where
  "MXRecord_DeepCopyInto r = ret r"

definition MXRecord_DeepCopy :: "addr option \<Rightarrow> addr option hop" where
  "MXRecord_DeepCopy = copyPtr unMX HMX MXRecord_DeepCopyInto"

definition SRVRecord_DeepCopyInto :: "SRVRecord \<Rightarrow> SRVRecord hop" where
  "SRVRecord_DeepCopyInto r = ret r"

definition SRVRecord_DeepCopy :: "addr option \<Rightarrow> addr option hop" where
  "SRVRecord_DeepCopy = copyPtr unSRV HSRV SRVRecord_DeepCopyInto"

text \<open>\<^verbatim>\<open>*out = *in\<close>, then the array of the texts, if any, is made anew (\<^verbatim>\<open>make\<close> and \<^verbatim>\<open>copy\<close>).\<close>

definition TXTRecord_DeepCopyInto :: "TXTRep \<Rightarrow> TXTRep hop" where
  "TXTRecord_DeepCopyInto t =
     bindH (copyPtr unStrings HStrings ret (xt_Targets t)) (\<lambda>p. ret (t\<lparr>xt_Targets := p\<rparr>))"

definition TXTRecord_DeepCopy :: "addr option \<Rightarrow> addr option hop" where
  "TXTRecord_DeepCopy = copyPtr unTXT HTXT TXTRecord_DeepCopyInto"

definition DNSRecordSpec_DeepCopyInto :: "SpecRep \<Rightarrow> SpecRep hop" where
  "DNSRecordSpec_DeepCopyInto s =
     bindH (copyPtr unBool HBool ret (xs_Active s)) (\<lambda>act.
     bindH (copyPtr unA HA ret (xs_A s)) (\<lambda>a.
     bindH (copyPtr unCNAME HCNAME ret (xs_CNAME s)) (\<lambda>c.
     bindH (copyPtr unTXT HTXT TXTRecord_DeepCopyInto (xs_TXT s)) (\<lambda>t.
     bindH (copyPtr unSRV HSRV ret (xs_SRV s)) (\<lambda>v.
     bindH (copyPtr unMX HMX ret (xs_MX s)) (\<lambda>m.
       ret (s\<lparr>xs_Active := act, xs_A := a, xs_CNAME := c, xs_TXT := t, xs_SRV := v, xs_MX := m\<rparr>)))))))"

definition DNSRecordSpec_DeepCopy :: "addr option \<Rightarrow> addr option hop" where
  "DNSRecordSpec_DeepCopy = copyPtr unSpec HSpec DNSRecordSpec_DeepCopyInto"

definition DNSRecordStatus_DeepCopyInto :: "StatusRep \<Rightarrow> StatusRep hop" where
  "DNSRecordStatus_DeepCopyInto s =
     bindH (copyPtr unBool HBool ret (xu_Active s)) (\<lambda>act. ret (s\<lparr>xu_Active := act\<rparr>))"

definition DNSRecordStatus_DeepCopy :: "addr option \<Rightarrow> addr option hop" where
  "DNSRecordStatus_DeepCopy = copyPtr unStatus HStatus DNSRecordStatus_DeepCopyInto"

text \<open>\<open>metaCopy\<close> is \<^verbatim>\<open>(*metav1.ObjectMeta).DeepCopyInto\<close>.\<close>

definition DNSRecord_DeepCopyInto :: "(addr \<Rightarrow> addr hop) \<Rightarrow> RecordRep \<Rightarrow> RecordRep hop" where
  "DNSRecord_DeepCopyInto metaCopy r =
     bindH (metaCopy (xr_Meta r)) (\<lambda>m.
     bindH (DNSRecordSpec_DeepCopyInto (xr_Spec r)) (\<lambda>s.
     bindH (DNSRecordStatus_DeepCopyInto (xr_Status r)) (\<lambda>u.
       ret (r\<lparr>xr_TypeMeta := xr_TypeMeta r, xr_Meta := m, xr_Spec := s, xr_Status := u\<rparr>))))"

definition DNSRecord_DeepCopy :: "(addr \<Rightarrow> addr hop) \<Rightarrow> addr option \<Rightarrow> addr option hop" where
  "DNSRecord_DeepCopy metaCopy = copyPtr unRecord HRecord (DNSRecord_DeepCopyInto metaCopy)"

text \<open>An interface value holds the pointer, or is nil for the nil pointer.\<close>

definition DNSRecord_DeepCopyObject :: "(addr \<Rightarrow> addr hop) \<Rightarrow> addr option \<Rightarrow> addr option hop" where
  "DNSRecord_DeepCopyObject metaCopy p =
     bindH (DNSRecord_DeepCopy metaCopy p) (\<lambda>c. case c of Some a \<Rightarrow> ret (Some a) | None \<Rightarrow> ret None)"

text \<open>\<open>listCopy\<close> is \<^verbatim>\<open>(*metav1.ListMeta).DeepCopyInto\<close>.\<close>

definition DNSRecordList_DeepCopyInto :: "(addr \<Rightarrow> addr hop) \<Rightarrow> (addr \<Rightarrow> addr hop) \<Rightarrow> ListRep \<Rightarrow> ListRep hop" where
  "DNSRecordList_DeepCopyInto metaCopy listCopy l =
     bindH (listCopy (xl_Meta l)) (\<lambda>m.
     bindH (copyPtr unRecords HRecords (copyAll (DNSRecord_DeepCopyInto metaCopy)) (xl_Items l)) (\<lambda>p.
       ret (l\<lparr>xl_TypeMeta := xl_TypeMeta l, xl_Meta := m, xl_Items := p\<rparr>)))"

definition DNSRecordList_DeepCopy :: "(addr \<Rightarrow> addr hop) \<Rightarrow> (addr \<Rightarrow> addr hop) \<Rightarrow> addr option \<Rightarrow> addr option hop" where
  "DNSRecordList_DeepCopy metaCopy listCopy = copyPtr unList HList (DNSRecordList_DeepCopyInto metaCopy listCopy)"

definition DNSRecordList_DeepCopyObject :: "(addr \<Rightarrow> addr hop) \<Rightarrow> (addr \<Rightarrow> addr hop) \<Rightarrow> addr option \<Rightarrow> addr option hop" where
  "DNSRecordList_DeepCopyObject metaCopy listCopy p =
     bindH (DNSRecordList_DeepCopy metaCopy listCopy p) (\<lambda>c. case c of Some a \<Rightarrow> ret (Some a) | None \<Rightarrow> ret None)"

section \<open>Values and footprints\<close>

text \<open>
  The value that a struct has in a heap, and the cells that hold it. No value means that a
  pointer leads outside the heap or to an object of another type.
\<close>

definition absFlat :: "heap \<Rightarrow> 'a \<Rightarrow> 'a option" where
  "absFlat h x = Some x"

definition footFlat :: "heap \<Rightarrow> 'a \<Rightarrow> addr set" where
  "footFlat h x = {}"

definition absPtr :: "(heapVal \<Rightarrow> 'a option) \<Rightarrow> (heap \<Rightarrow> 'a \<Rightarrow> 'v option) \<Rightarrow> heap \<Rightarrow> addr option \<Rightarrow> 'v option option" where
  "absPtr un ab h p =
     (case p of
        None \<Rightarrow> Some None
      | Some a \<Rightarrow> (case readCell un a h of None \<Rightarrow> None | Some x \<Rightarrow> map_option Some (ab h x)))"

definition footPtr :: "(heapVal \<Rightarrow> 'a option) \<Rightarrow> (heap \<Rightarrow> 'a \<Rightarrow> addr set) \<Rightarrow> heap \<Rightarrow> addr option \<Rightarrow> addr set" where
  "footPtr un ft h p =
     (case p of
        None \<Rightarrow> {}
      | Some a \<Rightarrow> insert a (case readCell un a h of None \<Rightarrow> {} | Some x \<Rightarrow> ft h x))"

fun absAll :: "(heap \<Rightarrow> 'a \<Rightarrow> 'v option) \<Rightarrow> heap \<Rightarrow> 'a list \<Rightarrow> 'v list option" where
  "absAll ab h [] = Some []"
| "absAll ab h (x # xs) = Option.bind (ab h x) (\<lambda>v. map_option (\<lambda>vs. v # vs) (absAll ab h xs))"

definition footAll :: "(heap \<Rightarrow> 'a \<Rightarrow> addr set) \<Rightarrow> heap \<Rightarrow> 'a list \<Rightarrow> addr set" where
  "footAll ft h xs = \<Union> (ft h ` set xs)"

definition copyPair :: "('a \<Rightarrow> 'a hop) \<Rightarrow> ('b \<Rightarrow> 'b hop) \<Rightarrow> 'a \<times> 'b \<Rightarrow> ('a \<times> 'b) hop" where
  "copyPair c d xy = bindH (c (fst xy)) (\<lambda>x. bindH (d (snd xy)) (\<lambda>y. ret (x, y)))"

definition absPair :: "(heap \<Rightarrow> 'a \<Rightarrow> 'v option) \<Rightarrow> (heap \<Rightarrow> 'b \<Rightarrow> 'u option) \<Rightarrow> heap \<Rightarrow> 'a \<times> 'b \<Rightarrow> ('v \<times> 'u) option" where
  "absPair ab bb h xy = Option.bind (ab h (fst xy)) (\<lambda>v. map_option (\<lambda>u. (v, u)) (bb h (snd xy)))"

definition footPair :: "(heap \<Rightarrow> 'a \<Rightarrow> addr set) \<Rightarrow> (heap \<Rightarrow> 'b \<Rightarrow> addr set) \<Rightarrow> heap \<Rightarrow> 'a \<times> 'b \<Rightarrow> addr set" where
  "footPair ft gt h xy = ft h (fst xy) \<union> gt h (snd xy)"

section \<open>The contract of a copy\<close>

definition heapOk :: "heap \<Rightarrow> bool" where
  "heapOk h \<longleftrightarrow> (\<forall>a \<ge> hp_next h. hp_cell h a = None)"

definition extends :: "heap \<Rightarrow> heap \<Rightarrow> bool" where
  "extends h h' \<longleftrightarrow> hp_next h \<le> hp_next h' \<and> (\<forall>a < hp_next h. hp_cell h' a = hp_cell h a)"

definition sameOn :: "addr set \<Rightarrow> heap \<Rightarrow> heap \<Rightarrow> bool" where
  "sameOn S h h' \<longleftrightarrow> (\<forall>a \<in> S. hp_cell h' a = hp_cell h a)"

locale copier =
  fixes copy :: "'r \<Rightarrow> 'r hop" and abs :: "heap \<Rightarrow> 'r \<Rightarrow> 'v option" and foot :: "heap \<Rightarrow> 'r \<Rightarrow> addr set"
  assumes frame: "sameOn (foot h r) h h' \<Longrightarrow> abs h' r = abs h r \<and> foot h' r = foot h r"
    and allocated: "heapOk h \<Longrightarrow> abs h r = Some v \<Longrightarrow> foot h r \<subseteq> {..<hp_next h}"
    and copies: "heapOk h \<Longrightarrow> abs h r = Some v \<Longrightarrow>
      \<exists>r' h'. copy r h = Some (r', h') \<and> heapOk h' \<and> extends h h' \<and> abs h' r' = Some v
        \<and> foot h' r' \<subseteq> {hp_next h..<hp_next h'}"
begin

lemma extended:
  assumes "heapOk h" and "abs h r = Some v" and "extends h h'"
  shows "abs h' r = Some v" "foot h' r = foot h r"
proof -
  have "sameOn (foot h r) h h'"
    using allocated [OF assms(1,2)] assms(3) by (auto simp: sameOn_def extends_def)
  then show "abs h' r = Some v" "foot h' r = foot h r" using frame assms(2) by simp_all
qed

text \<open>Writing to the copy leaves the original alone, and writing elsewhere leaves the copy alone.\<close>

lemma independent:
  assumes "heapOk h" and "abs h r = Some v"
  shows "\<exists>r' h'. copy r h = Some (r', h') \<and> heapOk h' \<and> abs h' r' = Some v \<and> abs h' r = Some v
    \<and> foot h' r \<inter> foot h' r' = {}
    \<and> (\<forall>h''. sameOn (- foot h' r') h' h'' \<longrightarrow> abs h'' r = Some v)
    \<and> (\<forall>h''. sameOn (foot h' r') h' h'' \<longrightarrow> abs h'' r' = Some v)"
proof -
  obtain r' h' where c: "copy r h = Some (r', h')" "extends h h'" "abs h' r' = Some v"
    "foot h' r' \<subseteq> {hp_next h..<hp_next h'}" "heapOk h'" using copies [OF assms] by blast
  note e = extended [OF assms c(2)]
  have d: "foot h' r \<inter> foot h' r' = {}"
    using allocated [OF assms] c(4) e(2) by (auto simp: subset_iff) (meson leD)
  then have "abs h'' r = Some v" if "sameOn (- foot h' r') h' h''" for h''
    using frame [of h' r h''] e(1) that by (auto simp: sameOn_def)
  moreover have "abs h'' r' = Some v" if "sameOn (foot h' r') h' h''" for h''
    using frame [of h' r' h''] that c(3) by simp
  ultimately show ?thesis using c(1,3,5) e(1) d by blast
qed

end

section \<open>Copies of composed data\<close>

lemma extends_refl: "extends h h"
  by (simp add: extends_def)

lemma extends_trans: "extends h h1 \<Longrightarrow> extends h1 h2 \<Longrightarrow> extends h h2"
  unfolding extends_def by (metis dual_order.trans order_less_le_trans)

lemma sameOn_Un [simp]: "sameOn (S \<union> T) h h' \<longleftrightarrow> sameOn S h h' \<and> sameOn T h h'"
  by (auto simp: sameOn_def)

lemma extends_next: "extends h h' \<Longrightarrow> hp_next h \<le> hp_next h'"
  by (simp add: extends_def)

lemma alloc_fresh:
  assumes "heapOk h"
  shows "\<exists>h'. alloc v h = Some (hp_next h, h') \<and> heapOk h' \<and> extends h h'
     \<and> hp_cell h' (hp_next h) = Some v \<and> hp_next h' = Suc (hp_next h)"
  using assms by (auto simp: alloc_def heapOk_def extends_def)

lemma copier_ret: "copier ret absFlat footFlat"
  by unfold_locales (auto simp: absFlat_def footFlat_def ret_def extends_refl)

lemma readCell_same: "hp_cell h' a = hp_cell h a \<Longrightarrow> readCell un a h' = readCell un a h"
  by (simp add: readCell_def)

text \<open>A pointer that is not nil: the object is copied into a fresh cell.\<close>

lemma copyPtr_object:
  assumes "copier c ab ft" and "\<And>x. un (mk x) = Some x" and "heapOk h"
    and "readCell un a h = Some x" and "ab h x = Some w"
  shows "\<exists>p' h'. copyPtr un mk c (Some a) h = Some (p', h') \<and> heapOk h' \<and> extends h h'
    \<and> absPtr un ab h' p' = Some (Some w) \<and> footPtr un ft h' p' \<subseteq> {hp_next h..<hp_next h'}"
proof -
  obtain y h1 where y: "c x h = Some (y, h1)" "heapOk h1" "extends h h1" "ab h1 y = Some w"
    "ft h1 y \<subseteq> {hp_next h..<hp_next h1}" using copier.copies [OF assms(1,3,5)] by blast
  obtain h2 where a: "alloc (mk y) h1 = Some (hp_next h1, h2)" "heapOk h2" "extends h1 h2"
    "hp_cell h2 (hp_next h1) = Some (mk y)" "hp_next h2 = Suc (hp_next h1)"
    using alloc_fresh [OF y(2)] by blast
  note e = copier.extended [OF assms(1) y(2,4) a(3)]
  have "readCell un (hp_next h1) h2 = Some y" by (simp add: readCell_def a(4) assms(2))
  then have "absPtr un ab h2 (Some (hp_next h1)) = Some (Some w)"
    "footPtr un ft h2 (Some (hp_next h1)) \<subseteq> {hp_next h..<hp_next h2}"
    using e y(5) extends_next [OF y(3)] a(5) by (auto simp: absPtr_def footPtr_def)
  moreover have "copyPtr un mk c (Some a) h = Some (Some (hp_next h1), h2)"
    using assms(4) y(1) a(1) by (simp add: copyPtr_def bindH_def ret_def)
  ultimately show ?thesis using a(2) extends_trans [OF y(3) a(3)] by blast
qed

lemma copier_ptr:
  assumes "copier c ab ft" and "\<And>x. un (mk x) = Some x"
  shows "copier (copyPtr un mk c) (absPtr un ab) (footPtr un ft)"
proof -
  note fr = copier.frame [OF assms(1)]
  show ?thesis
  proof
    fix h p h'
    assume s: "sameOn (footPtr un ft h p) h h'"
    show "absPtr un ab h' p = absPtr un ab h p \<and> footPtr un ft h' p = footPtr un ft h p"
    proof (cases p)
      case (Some a)
      then have "readCell un a h' = readCell un a h"
        using s by (intro readCell_same) (simp add: footPtr_def sameOn_def)
      moreover have "ab h' x = ab h x \<and> ft h' x = ft h x" if "readCell un a h = Some x" for x
        using s Some that fr [of h x h'] by (simp add: footPtr_def sameOn_def)
      ultimately show ?thesis using Some by (auto simp: absPtr_def footPtr_def split: option.splits)
    qed (simp add: absPtr_def footPtr_def)
  next
    fix h p v
    assume ok: "heapOk h" and v: "absPtr un ab h p = Some v"
    show "footPtr un ft h p \<subseteq> {..<hp_next h}"
    proof (cases p)
      case (Some a)
      then obtain x w where x: "readCell un a h = Some x" "ab h x = Some w"
        using v by (auto simp: absPtr_def split: option.splits)
      then have "a < hp_next h" using ok by (force simp: readCell_def heapOk_def not_less [symmetric])
      then show ?thesis using Some x copier.allocated [OF assms(1) ok x(2)] by (simp add: footPtr_def)
    qed (simp add: footPtr_def)
    show "\<exists>p' h'. copyPtr un mk c p h = Some (p', h') \<and> heapOk h' \<and> extends h h' \<and> absPtr un ab h' p' = Some v
        \<and> footPtr un ft h' p' \<subseteq> {hp_next h..<hp_next h'}"
    proof (cases p)
      case None
      then show ?thesis using ok v by (simp add: copyPtr_def absPtr_def footPtr_def extends_refl)
    next
      case (Some a)
      then obtain x w where x: "readCell un a h = Some x" "ab h x = Some w" "v = Some w"
        using v by (auto simp: absPtr_def split: option.splits)
      show ?thesis unfolding Some x(3) by (rule copyPtr_object [OF assms ok x(1,2)])
    qed
  qed
qed

lemma copier_pair:
  assumes "copier c ab ft" and "copier d bb gt"
  shows "copier (copyPair c d) (absPair ab bb) (footPair ft gt)"
proof
  fix h xy h'
  assume "sameOn (footPair ft gt h xy) h h'"
  then show "absPair ab bb h' xy = absPair ab bb h xy \<and> footPair ft gt h' xy = footPair ft gt h xy"
    using copier.frame [OF assms(1), of h "fst xy" h'] copier.frame [OF assms(2), of h "snd xy" h']
    by (simp add: footPair_def absPair_def)
next
  fix h :: heap and xy :: "'a \<times> 'c" and v
  assume ok: "heapOk h" and v: "absPair ab bb h xy = Some v"
  obtain w u where w: "ab h (fst xy) = Some w" "bb h (snd xy) = Some u" "v = (w, u)"
    using v by (auto simp: absPair_def bind_eq_Some_conv)
  show "footPair ft gt h xy \<subseteq> {..<hp_next h}"
    using copier.allocated [OF assms(1) ok w(1)] copier.allocated [OF assms(2) ok w(2)]
    by (simp add: footPair_def)
  obtain x h1 where x: "c (fst xy) h = Some (x, h1)" "heapOk h1" "extends h h1" "ab h1 x = Some w"
    "ft h1 x \<subseteq> {hp_next h..<hp_next h1}" using copier.copies [OF assms(1) ok w(1)] by blast
  have "bb h1 (snd xy) = Some u" using copier.extended(1) [OF assms(2) ok w(2) x(3)] .
  then obtain y h2 where y: "d (snd xy) h1 = Some (y, h2)" "heapOk h2" "extends h1 h2" "bb h2 y = Some u"
    "gt h2 y \<subseteq> {hp_next h1..<hp_next h2}" using copier.copies [OF assms(2) x(2)] by blast
  note e = copier.extended [OF assms(1) x(2,4) y(3)]
  have "copyPair c d xy h = Some ((x, y), h2)" using x(1) y(1) by (simp add: copyPair_def bindH_def ret_def)
  moreover have "absPair ab bb h2 (x, y) = Some v" using e(1) y(4) w(3) by (simp add: absPair_def)
  moreover have "footPair ft gt h2 (x, y) \<subseteq> {hp_next h..<hp_next h2}"
    using e(2) x(5) y(5) extends_next [OF x(3)] extends_next [OF y(3)] by (force simp: footPair_def)
  ultimately show "\<exists>r' h'. copyPair c d xy h = Some (r', h') \<and> heapOk h' \<and> extends h h'
      \<and> absPair ab bb h' r' = Some v \<and> footPair ft gt h' r' \<subseteq> {hp_next h..<hp_next h'}"
    using y(2) extends_trans [OF x(3) y(3)] by blast
qed

text \<open>A struct is copied through the tuple of its pointers.\<close>

lemma copier_via:
  assumes "copier c ab ft" and "\<And>r x. parts (build r x) = x" and "\<And>r x v. g (build r x) v = g r v"
    and "\<And>r h. copy r h = map_option (\<lambda>(x, h'). (build r x, h')) (c (parts r) h)"
    and "\<And>r h. ab' h r = map_option (g r) (ab h (parts r))" and "\<And>r h. ft' h r = ft h (parts r)"
  shows "copier copy ab' ft'"
proof
  fix h r v
  assume ok: "heapOk h" and v: "ab' h r = Some v"
  then obtain w where w: "ab h (parts r) = Some w" "v = g r w" by (auto simp: assms(5))
  show "ft' h r \<subseteq> {..<hp_next h}" using copier.allocated [OF assms(1) ok w(1)] by (simp add: assms(6))
  from copier.copies [OF assms(1) ok w(1)]
  show "\<exists>r' h'. copy r h = Some (r', h') \<and> heapOk h' \<and> extends h h' \<and> ab' h' r' = Some v
      \<and> ft' h' r' \<subseteq> {hp_next h..<hp_next h'}"
    by (auto simp: assms(2-6) w(2))
qed (use copier.frame [OF assms(1)] assms(5,6) in auto)

lemma footAll_simps [simp]:
  "footAll ft h [] = {}" "footAll ft h (x # xs) = ft h x \<union> footAll ft h xs"
  by (simp_all add: footAll_def)

lemma copyAll_copies:
  assumes "copier c ab ft" and "heapOk h" and "absAll ab h xs = Some vs"
  shows "\<exists>ys h'. copyAll c xs h = Some (ys, h') \<and> heapOk h' \<and> extends h h' \<and> absAll ab h' ys = Some vs
     \<and> footAll ft h' ys \<subseteq> {hp_next h..<hp_next h'} \<and> (\<forall>h''. extends h' h'' \<longrightarrow>
         absAll ab h'' ys = Some vs \<and> footAll ft h'' ys = footAll ft h' ys)"
  using assms(2,3)
proof (induction xs arbitrary: h vs)
  case Nil
  then show ?case by (simp add: ret_def extends_refl)
next
  case (Cons x xs)
  note K = copier.extended [OF assms(1)]
  obtain w ws where w: "ab h x = Some w" "absAll ab h xs = Some ws" "vs = w # ws"
    using Cons.prems(2) by (auto simp: bind_eq_Some_conv)
  obtain y h1 where y: "c x h = Some (y, h1)" "heapOk h1" "extends h h1" "ab h1 y = Some w"
    "ft h1 y \<subseteq> {hp_next h..<hp_next h1}" using copier.copies [OF assms(1) Cons.prems(1) w(1)] by blast
  have "absAll ab h1 xs = Some ws" using w(2)
  proof (induction xs arbitrary: ws)
    case (Cons z zs)
    then show ?case using K(1) [OF \<open>heapOk h\<close> _ y(3)] by (auto simp: bind_eq_Some_conv)
  qed simp
  then obtain ys h2 where r: "copyAll c xs h1 = Some (ys, h2)" "heapOk h2" "extends h1 h2" "absAll ab h2 ys = Some ws"
    "footAll ft h2 ys \<subseteq> {hp_next h1..<hp_next h2}"
    "\<And>h''. extends h2 h'' \<Longrightarrow> absAll ab h'' ys = Some ws \<and> footAll ft h'' ys = footAll ft h2 ys"
    using Cons.IH [OF y(2)] by blast
  have e: "ab h'' y = Some w" "ft h'' y = ft h1 y" if "extends h1 h''" for h''
    using K [OF y(2,4) that] by simp_all
  have "copyAll c (x # xs) h = Some (y # ys, h2)" using y(1) r(1) by (simp add: bindH_def ret_def)
  moreover have "absAll ab h'' (y # ys) = Some vs \<and> footAll ft h'' (y # ys) = ft h1 y \<union> footAll ft h2 ys"
    if "extends h2 h''" for h''
    using r(6) [OF that] e [OF extends_trans [OF r(3) that]] w(3) by simp
  moreover have "ft h1 y \<union> footAll ft h2 ys \<subseteq> {hp_next h..<hp_next h2}"
    using y(5) r(5) extends_next [OF y(3)] extends_next [OF r(3)] by force
  ultimately show ?case
    using r(2) extends_trans [OF y(3) r(3)] extends_refl by (intro exI [of _ "y # ys"] exI [of _ h2]) simp
qed

lemma copier_all:
  assumes "copier c ab ft"
  shows "copier (copyAll c) (absAll ab) (footAll ft)"
proof
  fix h xs h'
  assume "sameOn (footAll ft h xs) h h'"
  then show "absAll ab h' xs = absAll ab h xs \<and> footAll ft h' xs = footAll ft h xs"
  proof (induction xs)
    case (Cons x xs)
    then show ?case using copier.frame [OF assms, of h x h'] by simp
  qed simp
next
  fix h xs vs
  assume ok: "heapOk h" and v: "absAll ab h xs = Some vs"
  from v show "footAll ft h xs \<subseteq> {..<hp_next h}"
  proof (induction xs arbitrary: vs)
    case (Cons x xs)
    then show ?case using copier.allocated [OF assms ok, of x] by (auto simp: bind_eq_Some_conv)
  qed simp
  from copyAll_copies [OF assms ok v]
  show "\<exists>ys h'. copyAll c xs h = Some (ys, h') \<and> heapOk h' \<and> extends h h' \<and> absAll ab h' ys = Some vs
      \<and> footAll ft h' ys \<subseteq> {hp_next h..<hp_next h'}" by blast
qed

section \<open>The values of the API types\<close>

abbreviation "absBoolPtr \<equiv> absPtr unBool absFlat"
abbreviation "footBoolPtr \<equiv> footPtr unBool footFlat"

definition absTXT :: "heap \<Rightarrow> TXTRep \<Rightarrow> TXTRecord option" where
  "absTXT h t =
     map_option (\<lambda>ts. \<lparr>txt_Name = xt_Name t, txt_Class = xt_Class t, txt_Ttl = xt_Ttl t,
                       txt_Targets = (case ts of None \<Rightarrow> [] | Some l \<Rightarrow> l)\<rparr>)
       (absPtr unStrings absFlat h (xt_Targets t))"

definition footTXT :: "heap \<Rightarrow> TXTRep \<Rightarrow> addr set" where
  "footTXT h t = footPtr unStrings footFlat h (xt_Targets t)"

text \<open>The pointers of a spec, as a tuple, with the operations on the tuple.\<close>

definition specPointers :: "SpecRep \<Rightarrow> addr option \<times> addr option \<times> addr option \<times> addr option \<times> addr option \<times> addr option" where
  "specPointers s = (xs_Active s, xs_A s, xs_CNAME s, xs_TXT s, xs_SRV s, xs_MX s)"

definition absSpecPointers where
  "absSpecPointers =
     absPair absBoolPtr (absPair (absPtr unA absFlat) (absPair (absPtr unCNAME absFlat)
       (absPair (absPtr unTXT absTXT) (absPair (absPtr unSRV absFlat) (absPtr unMX absFlat)))))"

definition footSpecPointers where
  "footSpecPointers =
     footPair footBoolPtr (footPair (footPtr unA footFlat) (footPair (footPtr unCNAME footFlat)
       (footPair (footPtr unTXT footTXT) (footPair (footPtr unSRV footFlat) (footPtr unMX footFlat)))))"

definition copySpecPointers where
  "copySpecPointers =
     copyPair (copyPtr unBool HBool ret) (copyPair (copyPtr unA HA ret) (copyPair (copyPtr unCNAME HCNAME ret)
       (copyPair (copyPtr unTXT HTXT TXTRecord_DeepCopyInto) (copyPair (copyPtr unSRV HSRV ret) (copyPtr unMX HMX ret)))))"

definition absSpec :: "heap \<Rightarrow> SpecRep \<Rightarrow> DNSRecordSpec option" where
  "absSpec h s =
     map_option (\<lambda>(act, a, c, t, v, m).
         \<lparr>sp_Active = act, sp_A = a, sp_CNAME = c, sp_TXT = t, sp_SRV = v, sp_MX = m, sp_Raw = xs_Raw s\<rparr>)
       (absSpecPointers h (specPointers s))"

definition footSpec :: "heap \<Rightarrow> SpecRep \<Rightarrow> addr set" where
  "footSpec h s = footSpecPointers h (specPointers s)"

definition absStatus :: "heap \<Rightarrow> StatusRep \<Rightarrow> DNSRecordStatus option" where
  "absStatus h s =
     map_option (\<lambda>act. \<lparr>st_Record = xu_Record s, st_Active = act, st_Provider = xu_Provider s, st_ID = xu_ID s\<rparr>)
       (absBoolPtr h (xu_Active s))"

definition footStatus :: "heap \<Rightarrow> StatusRep \<Rightarrow> addr set" where
  "footStatus h s = footBoolPtr h (xu_Active s)"

definition absMeta :: "(heapVal \<Rightarrow> 'a option) \<Rightarrow> heap \<Rightarrow> addr \<Rightarrow> 'a option" where
  "absMeta un h a = readCell un a h"

definition footMeta :: "heap \<Rightarrow> addr \<Rightarrow> addr set" where
  "footMeta h a = {a}"

definition recordParts :: "RecordRep \<Rightarrow> addr \<times> SpecRep \<times> StatusRep" where
  "recordParts r = (xr_Meta r, xr_Spec r, xr_Status r)"

definition absRecord :: "heap \<Rightarrow> RecordRep \<Rightarrow> DNSRecord option" where
  "absRecord h r =
     map_option (\<lambda>(m, s, u). \<lparr>r_TypeMeta = xr_TypeMeta r, r_Meta = m, r_Spec = s, r_Status = u\<rparr>)
       (absPair (absMeta unMeta) (absPair absSpec absStatus) h (recordParts r))"

definition footRecord :: "heap \<Rightarrow> RecordRep \<Rightarrow> addr set" where
  "footRecord h r = footPair footMeta (footPair footSpec footStatus) h (recordParts r)"

text \<open>The list; nil counts as no items.\<close>

definition listParts :: "ListRep \<Rightarrow> addr \<times> addr option" where
  "listParts l = (xl_Meta l, xl_Items l)"

definition absList :: "heap \<Rightarrow> ListRep \<Rightarrow> DNSRecordList option" where
  "absList h l =
     map_option (\<lambda>(m, xs). \<lparr>dl_TypeMeta = xl_TypeMeta l, dl_ListMeta = m, dl_Items = (case xs of None \<Rightarrow> [] | Some rs \<Rightarrow> rs)\<rparr>)
       (absPair (absMeta unListMeta) (absPtr unRecords (absAll absRecord)) h (listParts l))"

definition footList :: "heap \<Rightarrow> ListRep \<Rightarrow> addr set" where
  "footList h l = footPair footMeta (footPtr unRecords (footAll footRecord)) h (listParts l)"

text \<open>
  What the generated code relies on: \<^verbatim>\<open>DeepCopyInto\<close> of the library's metadata types is
  itself a copy.
\<close>

definition meta_copies :: "(heapVal \<Rightarrow> 'a option) \<Rightarrow> (addr \<Rightarrow> addr hop) \<Rightarrow> bool" where
  "meta_copies un metaCopy \<longleftrightarrow> copier metaCopy (absMeta un) footMeta"

section \<open>Every generated function is a copy\<close>

interpretation a_copy: copier ARecord_DeepCopyInto absFlat footFlat
  using copier_ret by (simp add: ARecord_DeepCopyInto_def [abs_def])

interpretation cname_copy: copier CNAMERecord_DeepCopyInto absFlat footFlat
  using copier_ret by (simp add: CNAMERecord_DeepCopyInto_def [abs_def])

interpretation mx_copy: copier MXRecord_DeepCopyInto absFlat footFlat
  using copier_ret by (simp add: MXRecord_DeepCopyInto_def [abs_def])

interpretation srv_copy: copier SRVRecord_DeepCopyInto absFlat footFlat
  using copier_ret by (simp add: SRVRecord_DeepCopyInto_def [abs_def])

lemmas copier_flat_ptr = copier_ptr [OF copier_ret]

lemma TXT_copier: "copier TXTRecord_DeepCopyInto absTXT footTXT"
  by (rule copier_via [where parts = xt_Targets and build = "\<lambda>t p. t\<lparr>xt_Targets := p\<rparr>"
        and c = "copyPtr unStrings HStrings ret", OF copier_flat_ptr])
    (auto simp: TXTRecord_DeepCopyInto_def absTXT_def footTXT_def bindH_def ret_def split: option.splits)

interpretation txt_copy: copier TXTRecord_DeepCopyInto absTXT footTXT
  by (rule TXT_copier)

lemma specPointers_copier: "copier copySpecPointers absSpecPointers footSpecPointers"
  unfolding copySpecPointers_def absSpecPointers_def footSpecPointers_def
  by (intro copier_pair copier_ptr [OF TXT_copier] copier_flat_ptr) simp_all

lemma spec_copier: "copier DNSRecordSpec_DeepCopyInto absSpec footSpec"
proof (rule copier_via [OF specPointers_copier])
  let ?from = "\<lambda>s (act, a, c, t, v, m).
      s\<lparr>xs_Active := act, xs_A := a, xs_CNAME := c, xs_TXT := t, xs_SRV := v, xs_MX := m\<rparr>"
  show "DNSRecordSpec_DeepCopyInto s h
      = map_option (\<lambda>(x, h'). (?from s x, h')) (copySpecPointers (specPointers s) h)" for s h
    by (simp add: DNSRecordSpec_DeepCopyInto_def copySpecPointers_def copyPair_def specPointers_def bindH_def
        ret_def split: option.splits prod.splits)
qed (auto simp: absSpec_def footSpec_def specPointers_def)

interpretation spec_copy: copier DNSRecordSpec_DeepCopyInto absSpec footSpec
  by (rule spec_copier)

interpretation status_copy: copier DNSRecordStatus_DeepCopyInto absStatus footStatus
  by (rule copier_via [where parts = xu_Active and build = "\<lambda>s p. s\<lparr>xu_Active := p\<rparr>"
        and c = "copyPtr unBool HBool ret", OF copier_flat_ptr])
    (auto simp: DNSRecordStatus_DeepCopyInto_def absStatus_def footStatus_def bindH_def ret_def split: option.splits)

lemma record_copier:
  assumes "meta_copies unMeta metaCopy"
  shows "copier (DNSRecord_DeepCopyInto metaCopy) absRecord footRecord"
proof (rule copier_via)
  show "copier (copyPair metaCopy (copyPair DNSRecordSpec_DeepCopyInto DNSRecordStatus_DeepCopyInto))
      (absPair (absMeta unMeta) (absPair absSpec absStatus)) (footPair footMeta (footPair footSpec footStatus))"
    using assms unfolding meta_copies_def
    by (intro copier_pair spec_copier status_copy.copier_axioms)
  let ?from = "\<lambda>r (m, s, u). r\<lparr>xr_Meta := m, xr_Spec := s, xr_Status := u\<rparr>"
  show "DNSRecord_DeepCopyInto metaCopy r h = map_option (\<lambda>(x, h'). (?from r x, h'))
      (copyPair metaCopy (copyPair DNSRecordSpec_DeepCopyInto DNSRecordStatus_DeepCopyInto) (recordParts r) h)" for r h
    by (simp add: DNSRecord_DeepCopyInto_def copyPair_def recordParts_def bindH_def ret_def
        split: option.splits prod.splits)
qed (auto simp: absRecord_def footRecord_def recordParts_def)

lemma list_copier:
  assumes "meta_copies unMeta metaCopy" and "meta_copies unListMeta listCopy"
  shows "copier (DNSRecordList_DeepCopyInto metaCopy listCopy) absList footList"
proof (rule copier_via)
  let ?items = "copyPtr unRecords HRecords (copyAll (DNSRecord_DeepCopyInto metaCopy))"
  show "copier (copyPair listCopy ?items)
      (absPair (absMeta unListMeta) (absPtr unRecords (absAll absRecord)))
      (footPair footMeta (footPtr unRecords (footAll footRecord)))"
    using assms unfolding meta_copies_def
    by (intro copier_pair copier_ptr copier_all record_copier) (simp_all add: meta_copies_def)
  show "DNSRecordList_DeepCopyInto metaCopy listCopy l h = map_option (\<lambda>(x, h'). ((\<lambda>l (m, p). l\<lparr>xl_Meta := m, xl_Items := p\<rparr>) l x, h'))
      (copyPair listCopy ?items (listParts l) h)" for l h
    by (simp add: DNSRecordList_DeepCopyInto_def copyPair_def listParts_def bindH_def ret_def
        split: option.splits prod.splits)
qed (auto simp: absList_def footList_def listParts_def)

section \<open>Example objects\<close>

definition exMetaCopy :: "(heapVal \<Rightarrow> 'a option) \<Rightarrow> ('a \<Rightarrow> heapVal) \<Rightarrow> addr \<Rightarrow> addr hop" where
  "exMetaCopy un mk a h = (case readCell un a h of None \<Rightarrow> None | Some m \<Rightarrow> alloc (mk m) h)"

lemma exMetaCopy_copies:
  assumes "\<And>x. un (mk x) = Some x"
  shows "meta_copies un (exMetaCopy un mk)"
  unfolding meta_copies_def
proof
  fix h a v
  assume ok: "heapOk h" and v: "absMeta un h a = Some v"
  show "footMeta h a \<subseteq> {..<hp_next h}"
    using ok v by (force simp: absMeta_def footMeta_def readCell_def heapOk_def not_less [symmetric])
  obtain h' where "alloc (mk v) h = Some (hp_next h, h')" "heapOk h'" "extends h h'"
    "hp_cell h' (hp_next h) = Some (mk v)" "hp_next h' = Suc (hp_next h)"
    using alloc_fresh [OF ok] by blast
  then show "\<exists>r' h'. exMetaCopy un mk a h = Some (r', h') \<and> heapOk h' \<and> extends h h' \<and> absMeta un h' r' = Some v
      \<and> footMeta h' r' \<subseteq> {hp_next h..<hp_next h'}"
    using v assms by (simp add: exMetaCopy_def absMeta_def footMeta_def readCell_def)
qed (simp add: absMeta_def footMeta_def sameOn_def readCell_def)

lemma exMeta_copies:
  "meta_copies unMeta (exMetaCopy unMeta HMeta)" "meta_copies unListMeta (exMetaCopy unListMeta HListMeta)"
  by (simp_all add: exMetaCopy_copies)

text \<open>\<^term>\<open>exRecord\<close> with a text record, in memory.\<close>

definition exRep :: RecordRep where
  "exRep =
     \<lparr>xr_TypeMeta = \<lparr>t_APIVersion = [], t_Kind = []\<rparr>, xr_Meta = 0,
      xr_Spec = \<lparr>xs_Active = None, xs_A = Some 1, xs_CNAME = None, xs_TXT = Some 3, xs_SRV = None, xs_MX = None, xs_Raw = []\<rparr>,
      xr_Status = \<lparr>xu_Record = [], xu_Active = None, xu_Provider = [], xu_ID = []\<rparr>\<rparr>"

definition exHeap :: heap where
  "exHeap =
     \<lparr>hp_cell = Map.empty(0 \<mapsto> HMeta (r_Meta exRecord), 1 \<mapsto> HA exA, 2 \<mapsto> HStrings [''a'', ''b''],
        3 \<mapsto> HTXT \<lparr>xt_Name = ''t.example.org.'', xt_Class = 1, xt_Ttl = 60, xt_Targets = Some 2\<rparr>,
        4 \<mapsto> HRecord exRep, 5 \<mapsto> HRecords [exRep], 6 \<mapsto> HList \<lparr>xl_TypeMeta = \<lparr>t_APIVersion = [], t_Kind = []\<rparr>, xl_Meta = 7, xl_Items = Some 5\<rparr>,
        7 \<mapsto> HListMeta emptyListMeta),
      hp_next = 8\<rparr>"

definition exTextual :: DNSRecord where
  "exTextual = exRecord\<lparr>r_Spec := (r_Spec exRecord)\<lparr>sp_TXT :=
     Some \<lparr>txt_Name = ''t.example.org.'', txt_Class = 1, txt_Ttl = 60, txt_Targets = [''a'', ''b'']\<rparr>\<rparr>\<rparr>"

lemma exHeap_ok: "heapOk exHeap"
  by (simp add: heapOk_def exHeap_def)

lemma exRep_abs: "absRecord exHeap exRep = Some exTextual"
  by (simp add: absRecord_def recordParts_def absPair_def absMeta_def absSpec_def absSpecPointers_def specPointers_def
      absStatus_def absPtr_def absTXT_def absFlat_def readCell_def exHeap_def exRep_def exTextual_def exRecord_def
      emptySpec_def emptyStatus_def)

lemma exRep_value: "absPtr unRecord absRecord exHeap (Some 4) = Some (Some exTextual)"
  using exRep_abs by (simp add: absPtr_def readCell_def exHeap_def)

lemma exList_value: "\<exists>v. absPtr unList absList exHeap (Some 6) = Some (Some v)"
  using exRep_abs by (simp add: absPtr_def readCell_def exHeap_def absList_def listParts_def absPair_def absMeta_def)

section \<open>Properties\<close>

text \<open>
  C28. A deep copy of a \<^verbatim>\<open>DNSRecord\<close> has the value of the original and shares no memory with
  it: whatever is written through the copy leaves the original as it was, and whatever is
  written elsewhere, for instance when a provider fills in the original's status or the
  defaults are set, leaves the copy as it was. A nil pointer gives a nil pointer.
\<close>

theorem deep_copy_independent:
  assumes "meta_copies unMeta metaCopy" and "heapOk h" and "absPtr unRecord absRecord h p = Some v"
  shows "\<exists>q h'. DNSRecord_DeepCopy metaCopy p h = Some (q, h')
    \<and> absPtr unRecord absRecord h' q = Some v \<and> absPtr unRecord absRecord h' p = Some v
    \<and> footPtr unRecord footRecord h' p \<inter> footPtr unRecord footRecord h' q = {}
    \<and> (\<forall>h''. sameOn (- footPtr unRecord footRecord h' q) h' h'' \<longrightarrow> absPtr unRecord absRecord h'' p = Some v)
    \<and> (\<forall>h''. sameOn (footPtr unRecord footRecord h' q) h' h'' \<longrightarrow> absPtr unRecord absRecord h'' q = Some v)"
proof -
  have "copier (DNSRecord_DeepCopy metaCopy) (absPtr unRecord absRecord) (footPtr unRecord footRecord)"
    unfolding DNSRecord_DeepCopy_def by (intro copier_ptr record_copier assms(1)) simp
  from copier.independent [OF this assms(2,3)] show ?thesis by blast
qed

theorem deep_copy_independent_witness:
  "\<exists>q h'. DNSRecord_DeepCopy (exMetaCopy unMeta HMeta) (Some 4) exHeap = Some (q, h')
    \<and> absPtr unRecord absRecord h' q = Some (Some exTextual)
    \<and> footPtr unRecord footRecord h' (Some 4) \<inter> footPtr unRecord footRecord h' q = {}"
  using deep_copy_independent [OF exMeta_copies(1) exHeap_ok exRep_value] by blast

text \<open>
  C29. Memory stays well formed: copying a list whose pointers all lead to objects of their
  type ends without a bad access, and the copy is again such a list with the same items. It
  lies in newly allocated cells only, all the way down through its items and their parts: no
  pointer of it leads into memory that was in use, so that no write to old memory changes it.
  No cell that was in use changes, and every record that was well formed before is so after.
\<close>

theorem deep_copy_well_formed:
  assumes "meta_copies unMeta metaCopy" and "meta_copies unListMeta listCopy"
    and "heapOk h" and "absPtr unList absList h p = Some v"
  shows "\<exists>q h'. DNSRecordList_DeepCopyObject metaCopy listCopy p h = Some (q, h') \<and> heapOk h'
    \<and> absPtr unList absList h' q = Some v
    \<and> footPtr unList footList h' q \<subseteq> {hp_next h..<hp_next h'}
    \<and> (\<forall>h''. sameOn {hp_next h..<hp_next h'} h' h'' \<longrightarrow> absPtr unList absList h'' q = Some v)
    \<and> (\<forall>r u. absRecord h r = Some u \<longrightarrow> absRecord h' r = Some u)
    \<and> (\<forall>a < hp_next h. hp_cell h' a = hp_cell h a)"
proof -
  have L: "copier (DNSRecordList_DeepCopy metaCopy listCopy) (absPtr unList absList) (footPtr unList footList)"
    unfolding DNSRecordList_DeepCopy_def by (intro copier_ptr list_copier assms(1,2)) simp
  from copier.copies [OF this assms(3,4)] obtain q h' where
    q: "DNSRecordList_DeepCopy metaCopy listCopy p h = Some (q, h')" "heapOk h'" "extends h h'" "absPtr unList absList h' q = Some v"
    and fresh: "footPtr unList footList h' q \<subseteq> {hp_next h..<hp_next h'}"
    by blast
  have "DNSRecordList_DeepCopyObject metaCopy listCopy p h = Some (q, h')"
    using q(1) by (simp add: DNSRecordList_DeepCopyObject_def bindH_def ret_def split: option.splits)
  moreover have "absPtr unList absList h'' q = Some v" if "sameOn {hp_next h..<hp_next h'} h' h''" for h''
    using copier.frame [OF L, of h' q h''] that fresh q(4) by (auto simp: sameOn_def)
  moreover have "absRecord h' r = Some u" if "absRecord h r = Some u" for r u
    using copier.extended(1) [OF record_copier [OF assms(1)] assms(3) that q(3)] .
  moreover have "\<forall>a < hp_next h. hp_cell h' a = hp_cell h a" using q(3) by (simp add: extends_def)
  ultimately show ?thesis using q(2,4) fresh by blast
qed

theorem deep_copy_well_formed_witness:
  "\<exists>q h' v. DNSRecordList_DeepCopyObject (exMetaCopy unMeta HMeta) (exMetaCopy unListMeta HListMeta) (Some 6) exHeap = Some (q, h')
     \<and> absPtr unList absList h' q = Some (Some v) \<and> footPtr unList footList h' q \<subseteq> {8..<hp_next h'}"
proof -
  obtain v where v: "absPtr unList absList exHeap (Some 6) = Some (Some v)" using exList_value by blast
  have "hp_next exHeap = 8" by (simp add: exHeap_def)
  then show ?thesis using deep_copy_well_formed [OF exMeta_copies exHeap_ok v] by metis
qed

end
