(* ===== verification/Kubectl_Dns.thy ===== *)
theory Kubectl_Dns
  imports K8s_Client
begin

text \<open>
  Component \<^verbatim>\<open>pkg/kubect-dns\<close>: the commands of the kubectl plugin. \<^verbatim>\<open>activate\<close> and
  \<^verbatim>\<open>deactivate\<close> change the spec of a record found by name or by its text (\<^verbatim>\<open>get\<close>),
  \<^verbatim>\<open>list\<close> prints the records, \<^verbatim>\<open>create\<close> and \<^verbatim>\<open>import\<close> turn DNS text into objects.
\<close>

section \<open>Definitions\<close>

text \<open>\<open>CliUsage\<close> is the argument check of the command library, \<open>CliPanic\<close> an index out of range.\<close>

datatype cliResult = CliOk | CliErr go_error | CliUsage | CliPanic

definition quoted :: "string \<Rightarrow> string" where
  "quoted s = CHR 0x27 # s @ [CHR 0x27]"

text \<open>
  The root command's preparation: the namespace of the configuration (its error is ignored),
  \<^verbatim>\<open>default\<close> when it is empty, and the client.
\<close>

definition preRun :: "string \<Rightarrow> go_error + 'r \<Rightarrow> ('r \<Rightarrow> go_error + 'w kclient) \<Rightarrow> go_error + (string \<times> 'w kclient)" where
  "preRun confNamespace restConfig newClient =
     (let ns = (if confNamespace = [] then ''default'' else confNamespace)
      in case restConfig of
           Inl e \<Rightarrow> Inl e
         | Inr conf \<Rightarrow> map_sum id (\<lambda>c. (ns, c)) (newClient conf))"

text \<open>\<^verbatim>\<open>get\<close>: by name in the namespace, else by the record's text in all namespaces (the empty
  namespace of \<^verbatim>\<open>List\<close>).\<close>

definition cli_get :: "ext \<Rightarrow> 'w kclient \<Rightarrow> string \<Rightarrow> string \<Rightarrow> 'w \<Rightarrow> (go_error + DNSRecord) \<times> 'w" where
  "cli_get E K ns name w =
     (case k_Get K \<lparr>nn_Namespace = ns, nn_Name = name\<rparr> w of
        (Inr r, w1) \<Rightarrow> (Inr r, w1)
      | (Inl e, w1) \<Rightarrow>
          if \<not> isNotFound e then (Inl e, w1)
          else (case newRR E name of
                  Inr (Some rr) \<Rightarrow>
                    (case k_List K [] w1 of
                       (Inl e, w2) \<Rightarrow> (Inl e, w2)
                     | (Inr items, w2) \<Rightarrow>
                         (case find (\<lambda>v. st_Record (r_Status v) = rrString E rr) items of
                            Some v \<Rightarrow> (Inr v, w2)
                          | None \<Rightarrow> (Inl (Errorf (quoted name @ '': record not found'')), w2)))
                | _ \<Rightarrow> (Inl (Errorf (quoted name @ '' is not a DNSRecord or a valid dns record'')), w1)))"

definition setActive :: "bool \<Rightarrow> DNSRecord \<Rightarrow> DNSRecord" where
  "setActive b r = r\<lparr>r_Spec := (r_Spec r)\<lparr>sp_Active := Some b\<rparr>\<rparr>"

definition updateResult :: "go_error option \<times> 'w \<Rightarrow> cliResult \<times> 'w" where
  "updateResult x = (case x of (Some e, w) \<Rightarrow> (CliErr e, w) | (None, w) \<Rightarrow> (CliOk, w))"

definition activateCmd :: "ext \<Rightarrow> 'w kclient \<Rightarrow> string \<Rightarrow> string list \<Rightarrow> 'w \<Rightarrow> cliResult \<times> 'w" where
  "activateCmd E K ns args w =
     (if length args \<noteq> 1 then (CliUsage, w)
      else (case cli_get E K ns (hd args) w of
              (Inl e, w1) \<Rightarrow> (CliErr e, w1)
            | (Inr r, w1) \<Rightarrow>
                if sp_Active (r_Spec r) = None \<or> sp_Active (r_Spec r) = Some True then (CliOk, w1)
                else updateResult (k_Update K (setActive True r) w1)))"

text \<open>\<^verbatim>\<open>deactivate\<close> has no argument check.\<close>

definition deactivateCmd :: "ext \<Rightarrow> 'w kclient \<Rightarrow> string \<Rightarrow> string list \<Rightarrow> 'w \<Rightarrow> cliResult \<times> 'w" where
  "deactivateCmd E K ns args w =
     (if length args = 0 then (CliPanic, w)
      else (case cli_get E K ns (hd args) w of
              (Inl e, w1) \<Rightarrow> (CliErr e, w1)
            | (Inr r, w1) \<Rightarrow>
                if sp_Active (r_Spec r) = Some False then (CliOk, w1)
                else updateResult (k_Update K (setActive False r) w1)))"

definition formatBool :: "bool \<Rightarrow> string" where
  "formatBool b = (if b then ''true'' else ''false'')"

text \<open>The rows of \<^verbatim>\<open>list\<close>; the layout in columns (\<^verbatim>\<open>columnize\<close>) is a parameter.\<close>

definition listRow :: "string \<Rightarrow> DNSRecord \<Rightarrow> string" where
  "listRow ns v =
     strJoin ([m_Name (r_Meta v), ns, formatBool (ptr_ToBool (st_Active (r_Status v)))]
              @ splitByte CHR 0x09 (st_Record (r_Status v))) '' | ''"

definition listCmd ::
  "(string list \<Rightarrow> string) \<Rightarrow> 'w kclient \<Rightarrow> string \<Rightarrow> bool \<Rightarrow> bool \<Rightarrow> 'w \<Rightarrow> (go_error + string list) \<times> 'w" where
  "listCmd columnize K ns allNamespaces quiet w =
     (case k_List K (if allNamespaces then [] else ns) w of
        (Inl e, w1) \<Rightarrow> (Inl e, w1)
      | (Inr items, w1) \<Rightarrow>
          if items = [] then (Inr [''No resources found in '' @ ns @ '' namespace.''], w1)
          else if quiet then
            (Inr (map (\<lambda>v. m_Namespace (r_Meta v) @ ''/'' @ m_Name (r_Meta v)) items), w1)
          else
            (Inr [columnize (''NAME  | NAMESPACE | ACTIVE | RECORD | TTL | | TYPE | VALUE''
                             # map (listRow ns) items)], w1))"

definition inNamespace :: "string \<Rightarrow> DNSRecord \<Rightarrow> DNSRecord" where
  "inNamespace ns r = r\<lparr>r_Meta := (r_Meta r)\<lparr>m_Namespace := ns\<rparr>\<rparr>"

text \<open>\<^verbatim>\<open>os.Stdout.Write\<close>: the text that was printed, or the error.\<close>

definition writeOut :: "(string \<Rightarrow> go_error option) \<Rightarrow> string \<Rightarrow> cliResult + string" where
  "writeOut stdout b = (case stdout b of Some e \<Rightarrow> Inl (CliErr e) | None \<Rightarrow> Inr b)"

text \<open>\<^verbatim>\<open>create\<close>: the object that is printed (as YAML, a parameter) or the error.\<close>

definition newCmd ::
  "ext \<Rightarrow> (DNSRecord \<Rightarrow> go_error + string) \<Rightarrow> (string \<Rightarrow> go_error option) \<Rightarrow> string \<Rightarrow> string list
     \<Rightarrow> cliResult + string" where
  "newCmd E yaml stdout ns args =
     (if length args \<noteq> 1 then Inl CliUsage
      else (case newRR E (hd args) of
              Inl e \<Rightarrow> Inl (CliErr (Errorf (''invalid record: '' @ quoted (hd args) @ '': '' @ error_text e)))
            | Inr None \<Rightarrow> Inl (CliErr (Errorf (''invalid record: '' @ quoted (hd args))))
            | Inr (Some rr) \<Rightarrow>
                (case yaml (inNamespace ns (FromRR E rr)) of Inl e \<Rightarrow> Inl (CliErr e) | Inr b \<Rightarrow> writeOut stdout b)))"

text \<open>
  \<^verbatim>\<open>import\<close>: the zone parser delivers records (or nil) until it ends or fails; the loop does
  not ask it for its error.
\<close>

record zoneParse =
  zp_results :: "rr option list"
  zp_err :: "go_error option"

definition cli_parse :: "ext \<Rightarrow> string \<Rightarrow> go_error + zoneParse \<Rightarrow> go_error + DNSRecordList" where
  "cli_parse E ns file =
     (case file of
        Inl e \<Rightarrow> Inl e
      | Inr zp \<Rightarrow>
          Inr \<lparr>dl_TypeMeta = \<lparr>t_APIVersion = rec_APIVersion, t_Kind = rec_DNSRecordList\<rparr>,
               dl_ListMeta = emptyListMeta,
               dl_Items = List.map_filter (map_option (\<lambda>r. inNamespace ns (FromRR E r))) (zp_results zp)\<rparr>)"

text \<open>The command: the file must exist (\<^verbatim>\<open>os.Stat\<close>) and not be a directory.\<close>

definition importCmd ::
  "ext \<Rightarrow> (DNSRecordList \<Rightarrow> go_error + string) \<Rightarrow> (string \<Rightarrow> go_error option) \<Rightarrow> (string \<Rightarrow> go_error + bool)
     \<Rightarrow> (string \<Rightarrow> go_error + zoneParse) \<Rightarrow> string \<Rightarrow> string list \<Rightarrow> cliResult + string" where
  "importCmd E yaml stdout stat openFile ns args =
     (if length args \<noteq> 1 then Inl CliUsage
      else (case stat (hd args) of
              Inl e \<Rightarrow> Inl (CliErr e)
            | Inr isDir \<Rightarrow>
                if isDir then Inl (CliErr (Errorf ''input: expected a file, not a directory''))
                else (case cli_parse E ns (openFile (hd args)) of
                        Inl e \<Rightarrow> Inl (CliErr e)
                      | Inr rrs \<Rightarrow> (case yaml rrs of Inl e \<Rightarrow> Inl (CliErr e) | Inr b \<Rightarrow> writeOut stdout b))))"

text \<open>
  The words that name a command (its name and its aliases), and the commands that the files
  of the package register.
\<close>

definition activateWords :: "string list" where
  "activateWords = [''activate'', ''enable'', ''on'', ''en'']"

definition deactivateWords :: "string list" where
  "deactivateWords = [''deactivate'', ''disable'', ''off'', ''dis'']"

definition importWords :: "string list" where
  "importWords = [''import'', ''convert'']"

definition listWords :: "string list" where
  "listWords = [''list'', ''ls'', ''l'']"

definition newWords :: "string list" where
  "newWords = [''create'', ''new'', ''add'']"

abbreviation commandWords :: "string list list" where
  "commandWords \<equiv> [activateWords, deactivateWords, importWords, listWords, newWords]"

text \<open>
  \<^verbatim>\<open>main\<close> of \<^verbatim>\<open>cmd/kubectl-dns\<close>: the exit status after the root command. The Go runtime ends
  a process that panics with status 2.
\<close>

definition kubectlMain :: "cliResult \<Rightarrow> nat" where
  "kubectlMain res = (case res of CliOk \<Rightarrow> 0 | CliErr _ \<Rightarrow> 1 | CliUsage \<Rightarrow> 1 | CliPanic \<Rightarrow> 2)"

section \<open>Lemmas\<close>

text \<open>No word names two commands.\<close>

lemma commandWords_unambiguous: "distinct (concat commandWords)"
  by (simp add: activateWords_def deactivateWords_def importWords_def listWords_def newWords_def)

lemma inNamespace_sel [simp]: "r_Spec (inNamespace ns r) = r_Spec r" "m_Namespace (r_Meta (inNamespace ns r)) = ns"
  by (simp_all add: inNamespace_def)

lemma setActive_sel [simp]:
  "keyOf (setActive b r) = keyOf r" "r_Meta (setActive b r) = r_Meta r" "r_Status (setActive b r) = r_Status r"
  "r_Spec (setActive b r) = (r_Spec r)\<lparr>sp_Active := Some b\<rparr>"
  by (simp_all add: setActive_def)

lemma cli_get_name:
  assumes "lawfulServer K get" and "get w \<lparr>nn_Namespace = ns, nn_Name = n\<rparr> = Some r"
  shows "cli_get E K ns n w = (Inr r, w)"
  using lawful_Get [OF assms(1), of "\<lparr>nn_Namespace = ns, nn_Name = n\<rparr>" w] assms(2) by (simp add: cli_get_def)

lemma update_active:
  assumes "lawfulServer K get" and "get w (keyOf r) = Some r" and "m_Finalizers (r_Meta r) \<noteq> [] \<or> \<not> deletionRequested r"
  shows "\<exists>w' u. k_Update K (setActive b r) w = (None, w') \<and> get w' = (get w)(keyOf r \<mapsto> u)
     \<and> keyOf u = keyOf r \<and> r_Spec u = (r_Spec r)\<lparr>sp_Active := Some b\<rparr> \<and> r_Status u = r_Status r
     \<and> m_Finalizers (r_Meta u) = m_Finalizers (r_Meta r) \<and> deletionRequested u = deletionRequested r"
proof -
  have k: "get w (keyOf (setActive b r)) = Some r"
    "m_ResourceVersion (r_Meta (setActive b r)) = m_ResourceVersion (r_Meta r)" using assms(2) by simp_all
  obtain w' rv where "k_Update K (setActive b r) w = (None, w')"
    "get w' = (get w)(keyOf (setActive b r) :=
       if deletionRequested r \<and> m_Finalizers (r_Meta (setActive b r)) = []
       then None else Some (withRV rv (serverUpdate r (setActive b r))))"
    using assms(1) k by (rule lawful_Update)
  then show ?thesis
    using assms(3)
    by (intro exI [of _ w'] exI [of _ "withRV rv (serverUpdate r (setActive b r))"]) auto
qed

text \<open>A stored object that the server keeps when it is updated.\<close>

definition keepable :: "DNSRecord \<Rightarrow> bool" where
  "keepable r \<longleftrightarrow> m_Finalizers (r_Meta r) \<noteq> [] \<or> \<not> deletionRequested r"

lemma setActive_same: "sp_Active (r_Spec r) = Some b \<Longrightarrow> (r_Spec r)\<lparr>sp_Active := Some b\<rparr> = r_Spec r"
  by (cases "r_Spec r") simp

lemma deactivate_step:
  assumes "lawfulServer K get" and "get w key = Some r" and "keyOf r = key" and "keepable r"
    and "key = \<lparr>nn_Namespace = ns, nn_Name = n\<rparr>"
  shows "\<exists>w1 u. deactivateCmd E K ns [n] w = (CliOk, w1) \<and> get w1 key = Some u \<and> keyOf u = key
     \<and> keepable u \<and> r_Spec u = (r_Spec r)\<lparr>sp_Active := Some False\<rparr>"
proof -
  have g: "cli_get E K ns n w = (Inr r, w)"
    using cli_get_name [OF assms(1), of w ns n r E] assms(2,5) by simp
  show ?thesis
  proof (cases "sp_Active (r_Spec r) = Some False")
    case True
    then show ?thesis
      using g setActive_same assms(2-4) by (intro exI [of _ w] exI [of _ r]) (simp add: deactivateCmd_def)
  next
    case False
    have s: "get w (keyOf r) = Some r" using assms(2,3) by simp
    obtain w' u where w': "k_Update K (setActive False r) w = (None, w')" "get w' = (get w)(keyOf r \<mapsto> u)"
      "keyOf u = keyOf r" "r_Spec u = (r_Spec r)\<lparr>sp_Active := Some False\<rparr>"
      "m_Finalizers (r_Meta u) = m_Finalizers (r_Meta r)" "deletionRequested u = deletionRequested r"
      using update_active [OF assms(1) s assms(4) [unfolded keepable_def], of False] by blast
    then show ?thesis
      using g False assms(3,4)
      by (intro exI [of _ w'] exI [of _ u]) (simp add: deactivateCmd_def updateResult_def keepable_def)
  qed
qed

section \<open>Properties\<close>

text \<open>
  C39. Switching off and on. For a stored record named on the command line, \<^verbatim>\<open>deactivate\<close> ends
  well and changes nothing of the stored spec but the switch, a second \<^verbatim>\<open>deactivate\<close> writes
  nothing, and \<^verbatim>\<open>activate\<close> then turns the switch on, the rest of the spec being as at the
  beginning. Without an argument \<^verbatim>\<open>activate\<close> refuses with exit status 1, while
  \<^verbatim>\<open>deactivate\<close> crashes with an index out of range.
\<close>

theorem toggle_record:
  assumes "lawfulServer K get" and "get w key = Some r" and "keyOf r = key"
    and "keepable r"
    and "key = \<lparr>nn_Namespace = ns, nn_Name = n\<rparr>"
  shows "\<exists>w1 u. deactivateCmd E K ns [n] w = (CliOk, w1) \<and> get w1 key = Some u
     \<and> r_Spec u = (r_Spec r)\<lparr>sp_Active := Some False\<rparr>
     \<and> deactivateCmd E K ns [n] w1 = (CliOk, w1)
     \<and> (\<exists>w2 v. activateCmd E K ns [n] w1 = (CliOk, w2) \<and> get w2 key = Some v
          \<and> r_Spec v = (r_Spec r)\<lparr>sp_Active := Some True\<rparr>)
     \<and> deactivateCmd E K ns [] w = (CliPanic, w) \<and> kubectlMain CliPanic = 2
     \<and> activateCmd E K ns [] w = (CliUsage, w) \<and> kubectlMain CliUsage = 1"
proof -
  obtain w1 u where 1: "deactivateCmd E K ns [n] w = (CliOk, w1)" "get w1 key = Some u" "keyOf u = key"
    "keepable u" "r_Spec u = (r_Spec r)\<lparr>sp_Active := Some False\<rparr>"
    using deactivate_step [OF assms] by blast
  have g: "cli_get E K ns n w1 = (Inr u, w1)"
    using cli_get_name [OF assms(1), of w1 ns n u E] 1(2) assms(5) by simp
  have s: "get w1 (keyOf u) = Some u" using 1(2,3) by simp
  obtain w2 v where 2: "k_Update K (setActive True u) w1 = (None, w2)" "get w2 = (get w1)(keyOf u \<mapsto> v)"
    "r_Spec v = (r_Spec u)\<lparr>sp_Active := Some True\<rparr>"
    using update_active [OF assms(1) s 1(4) [unfolded keepable_def], of True] by blast
  have a: "activateCmd E K ns [n] w1 = (CliOk, w2)"
    using g 1(5) 2(1) by (simp add: activateCmd_def updateResult_def)
  have d: "deactivateCmd E K ns [n] w1 = (CliOk, w1)" "deactivateCmd E K ns [] w = (CliPanic, w)"
    "activateCmd E K ns [] w = (CliUsage, w)" "kubectlMain CliPanic = 2" "kubectlMain CliUsage = 1"
    using g 1(5) by (simp_all add: deactivateCmd_def activateCmd_def kubectlMain_def)
  have v: "get w2 key = Some v" "r_Spec v = (r_Spec r)\<lparr>sp_Active := Some True\<rparr>"
    using 2(2,3) 1(3,5) by simp_all
  show ?thesis
    by (rule exI [of _ w1], rule exI [of _ u]) (use 1 a d v in simp)
qed

theorem toggle_record_witness:
  "\<exists>w1. deactivateCmd exExt memK ''default'' [''www''] ([exValid], ()) = (CliOk, w1)
     \<and> deactivateCmd exExt memK ''default'' [''www''] w1 = (CliOk, w1)"
proof -
  have k: "keyOf exValid = \<lparr>nn_Namespace = ''default'', nn_Name = ''www''\<rparr>"
    by (simp add: keyOf_def exValid_def exRecord_def emptyMeta_def)
  have g: "memGet ([exValid], ()) \<lparr>nn_Namespace = ''default'', nn_Name = ''www''\<rparr> = Some exValid"
    by (simp add: memGet_def k)
  have d: "keepable exValid"
    by (simp add: keepable_def deletionRequested_def exValid_def exRecord_def emptyMeta_def timeIsZero_def)
  obtain w1 u where "deactivateCmd exExt memK ''default'' [''www''] ([exValid], ()) = (CliOk, w1)"
    "deactivateCmd exExt memK ''default'' [''www''] w1 = (CliOk, w1)"
    using toggle_record [where K = memK and get = memGet and w = "([exValid], ())" and r = exValid and E = exExt
        and key = "\<lparr>nn_Namespace = ''default'', nn_Name = ''www''\<rparr>" and ns = "''default''" and n = "''www''",
        OF memK_lawful g k d refl]
    by (elim exE conjE)
  then show ?thesis by (intro exI [of _ w1] conjI)
qed

text \<open>
  C40. Importing a zone loses nothing of what the parser delivers: the items are the parsed
  records in order, in the chosen namespace, and each converts back to the record it came
  from, for records that the custom resource can express. A parse error after the last
  record is not noticed: the command prints the list as if the file had been read.
\<close>

theorem import_roundtrip:
  assumes "list_all (rrRegular E) (List.map_filter id (zp_results zp))"
  shows "\<exists>l. cli_parse E ns (Inr zp) = Inr l
     \<and> map (ToRR E) (dl_Items l) = map Inr (List.map_filter id (zp_results zp))
     \<and> list_all (\<lambda>r. m_Namespace (r_Meta r) = ns) (dl_Items l)
     \<and> cli_parse E ns (Inr (zp\<lparr>zp_err := e\<rparr>)) = Inr l
     \<and> (stat f = Inr False \<and> openFile f = Inr (zp\<lparr>zp_err := e\<rparr>) \<and> yaml l = Inr b \<longrightarrow>
          importCmd E yaml stdout stat openFile ns [f] = writeOut stdout b)"
proof -
  have items: "List.map_filter (map_option (\<lambda>r. inNamespace ns (FromRR E r))) xs
      = map (\<lambda>r. inNamespace ns (FromRR E r)) (List.map_filter id xs)" for xs
    by (induction xs) (auto simp: List.map_filter_def)
  have "ToRR E (inNamespace ns (FromRR E r)) = Inr r" if "rrRegular E r" for r
    using ToRR_FromRR [OF that] by (simp add: ToRR_def)
  then show ?thesis
    using assms by (simp add: cli_parse_def importCmd_def items list_all_iff)
qed

theorem import_roundtrip_witness:
  "\<exists>l. cli_parse exExt ''default'' (Inr \<lparr>zp_results = [None, Some exNS], zp_err = Some (Errorf ''bad zone'')\<rparr>) = Inr l
     \<and> map (ToRR exExt) (dl_Items l) = [Inr exNS]
     \<and> importCmd exExt (\<lambda>_. Inr ''items'') (\<lambda>_. None) (\<lambda>_. Inr False)
          (\<lambda>_. Inr \<lparr>zp_results = [None, Some exNS], zp_err = Some (Errorf ''bad zone'')\<rparr>) ''default'' [''zone''] = Inr ''items''"
proof -
  let ?zp = "\<lparr>zp_results = [None, Some exNS], zp_err = None\<rparr>" and ?e = "Some (Errorf ''bad zone'')"
  have "rrRegular exExt exNS" by (simp add: exNS_def exNewRR_def exString_def)
  then have h: "list_all (rrRegular exExt) (List.map_filter id (zp_results ?zp))"
    by (simp add: List.map_filter_def)
  from import_roundtrip [where yaml = "\<lambda>_. Inr ''items''" and stdout = "\<lambda>_. None" and stat = "\<lambda>_. Inr False"
      and openFile = "\<lambda>_. Inr (?zp\<lparr>zp_err := ?e\<rparr>)" and f = "''zone''" and b = "''items''" and e = ?e
      and ns = "''default''", OF h]
  show ?thesis by (auto simp: List.map_filter_def writeOut_def)
qed

end
