(* ===== verification/Spec2Isabelle.thy ===== *)
theory Spec2Isabelle
  imports Ip_Private Inprocess Owner_Controllers Locks Bootstrap Plugin_Machine Deep_Copy Kubectl_Dns
begin

text \<open>
  A verification development for \<^verbatim>\<open>k8s-dns\<close>, a Kubernetes operator that manages DNS records
  as custom resources and serves them itself or through external DNS services.

  \<^bold>\<open>The program.\<close> A \<^verbatim>\<open>DNSRecord\<close> object describes one resource record. The admission webhook
  (\<^verbatim>\<open>api/v1alpha1\<close>) fills in defaults and refuses bad specs. The Service and Ingress
  controllers (\<^verbatim>\<open>controllers\<close>) create one object per host and address of a load balancer.
  The record controller asks a provider (\<^verbatim>\<open>pkg/provider\<close>) to bring the record about, keeps a
  finalizer while an external record exists, writes the status and verifies the record with a
  DNS query. The provider is either a no-op, and then the CoreDNS plugin
  (\<^verbatim>\<open>pkg/coredns/k8s_dns\<close>) in the same process serves the objects it sees through an
  informer; or a libdns client of an external service. \<^verbatim>\<open>cmd/k8s-dns\<close> chooses between them.
  \<^verbatim>\<open>pkg/kubect-dns\<close> is the kubectl plugin.

  \<^bold>\<open>Theories.\<close>
  \<^item> \<open>Go_Prelude\<close>, \<open>Go_Strconv\<close>, \<open>Go_Net\<close>: what the sources use of the Go library (errors,
    fixed-width integers, \<^verbatim>\<open>strings\<close>, \<^verbatim>\<open>strconv\<close>, \<^verbatim>\<open>net\<close>), with the lemmas the components
    share and the locale \<open>invariant_machine\<close>.
  \<^item> \<open>Dns_Api\<close>: the types of \<^verbatim>\<open>dnsrecord_types.go\<close>, resource records, object metadata,
    \<^verbatim>\<open>pkg/ptr\<close>, and the record \<open>ext\<close> of third-party functions. \<open>Example_Ext\<close>: one instance
    of \<open>ext\<close>, used by the witnesses only.
  \<^item> \<open>Webhook\<close> (\<^verbatim>\<open>dnsrecord_webhook.go\<close>): \<open>Default\<close>, \<open>validate\<close>. Admission accepts exactly
    the specs described by \<open>submittable\<close>; defaulting is idempotent.
  \<^item> \<open>Deep_Copy\<close> (\<^verbatim>\<open>zz_generated.deepcopy.go\<close>): all generated methods over an explicit heap, in
    which structs hold the addresses of what they point to (\<open>SpecRep\<close>, \<open>RecordRep\<close>, \<open>ListRep\<close>).
    A copy has the value of the original, read through \<open>absRecord\<close> and \<open>absList\<close>, and no cell in
    common with it; copying fails on no well-formed object. The locale \<open>copier\<close> is the contract
    of a \<^verbatim>\<open>DeepCopyInto\<close>; pointers, slices and pairs preserve it, and every type interprets it.
  \<^item> \<open>Dns_Record\<close> (\<^verbatim>\<open>pkg/record\<close>, \<^verbatim>\<open>groupversion_info.go\<close>): \<open>FromRR\<close>, \<open>ToRR\<close>, \<open>recName\<close>. Accepted objects with one kind
    convert; conversion to an object and back is the identity.
  \<^item> \<open>Ip_Private\<close> (\<^verbatim>\<open>pkg/ip\<close>): the private address ranges, equal to a test on bytes.
  \<^item> \<open>Provider\<close> (\<^verbatim>\<open>pkg/provider\<close> and its factories): the registry over the environment, the
    no-op provider, and the locale \<open>provider_contract\<close>: a provider changes nothing of the
    object but its binding, reports no error with success, and leaves the object alone
    without success. It is interpreted by the no-op provider, by the libdns provider and by
    every registered provider.
  \<^item> \<open>Libdns\<close>, \<open>Libdns_Sync\<close> (\<^verbatim>\<open>pkg/provider/libdns/libdns.go\<close>): \<open>lib_Reconcile\<close> with its parts
    \<open>lib_zone\<close>, \<open>lib_remove\<close>, \<open>lib_ensure\<close>, \<open>lib_append\<close>. Writes touch only the bound record;
    one call converges and the next changes nothing; removal; the TTL does not overflow; and
    two situations in which the code loops or removes what it does not own.
  \<^item> \<open>K8s_Client\<close>: the client of the API server as a record of functions, the laws of a server
    that works (\<open>lawfulServer\<close>, \<open>lawfulCRUD\<close>) with an in-memory instance that has them, and
    \<^verbatim>\<open>pkg/recorder\<close>.
  \<^item> \<open>Record_Controller\<close> (\<^verbatim>\<open>dnsrecord_controller.go\<close>): \<open>dnsReconcile\<close>, the whole handler
    (\<open>reconcileDeleted\<close>, \<open>setFinalizer\<close>, \<open>reconcileActive\<close>, \<open>verifyRecord\<close>, \<open>lookup\<close>), and which
    writes it can make. \<open>Record_Lifecycle\<close>: sequences of calls; a wanted record becomes healthy
    in three calls and stays so, also if it was stored without its defaults (\<open>arrived\<close>); a
    deleted one disappears in two, unless another finalizer is present; an object with a CNAME
    and an empty TXT part is admitted but never reconciled, because the two switches over the
    kinds disagree. \<open>Inprocess\<close>: the lifecycle in the default configuration, in which the
    provider does nothing and the plugin of this process serves the records: controller, server,
    informer and plugin together.
  \<^item> \<open>Child_Records\<close> (\<^verbatim>\<open>child_records.go\<close>): names, listing, difference and writes. One pass
    leaves the wanted children and nothing else of them, under the conditions of \<open>inSync\<close>; its
    writes are those of \<open>childPlan\<close>, up to the first that is refused (\<open>performed\<close>).
  \<^item> \<open>Owner_Controllers\<close> (\<^verbatim>\<open>service_controller.go\<close>, \<^verbatim>\<open>ingress_controller.go\<close>): both handlers and
    the event filter, over the locale \<open>owner_controller\<close> that both interpret. How their records
    reach the answers of the plugin (\<open>publishedAs\<close>) is proved in this theory, below.
  \<^item> \<open>Coredns_Plugin\<close> (\<^verbatim>\<open>k8s_dns/provider.go\<close>, \<^verbatim>\<open>k8s_dns/crds.go\<close>): \<open>sync\<close>, the event handlers,
    \<open>ServeDNS\<close> and \<open>crdsSetup\<close>. The inductive relation \<open>informer\<close> is the specification: a set of
    objects that changes; the records held refine it, every zone is built from the records of its
    active objects (\<open>zonesMade\<close>), and queries are answered from these zones.
  \<^item> \<open>Plugin_Machine\<close> (the same files, concurrently): the step relation \<open>plugStep\<close> interleaves an
    event handler, whose \<^verbatim>\<open>sync\<close> is one step per iteration of its loops, with any number of
    queries. The map of zones is an object in a store, because \<^verbatim>\<open>Zones()\<close> returns a struct that
    shares it and \<^verbatim>\<open>ServeDNS\<close> reads it outside the lock. Every query sees published zones, which
    are those that \<open>sync\<close> makes in one go, and every rebuild can finish.
  \<^item> \<open>Locks\<close>: the mutex per object of the record controller and the reader-writer lock of
    \<^verbatim>\<open>sync.go\<close> as step relations with interleaving workers, interpreted as
    \<open>invariant_machine\<close>s: exclusion, and that every worker that waits can get its lock.
  \<^item> \<open>Server_Main\<close> (\<^verbatim>\<open>pkg/coredns/config\<close>, \<^verbatim>\<open>pkg/coredns/coredns.go\<close>, \<^verbatim>\<open>cmd/k8s-dns\<close>): the
    rendered Corefile, the plugins the server knows, the decisions of the command line.
  \<^item> \<open>Bootstrap\<close> (\<^verbatim>\<open>cmd/k8s-dns/main.go\<close>, the \<^verbatim>\<open>SetupWithManager\<close> methods, \<^verbatim>\<open>Run\<close> of
    \<^verbatim>\<open>coredns.go\<close>, \<^verbatim>\<open>New\<close> and \<^verbatim>\<open>Run\<close> of the plugin): \<open>rootRun\<close>, the command as the sequence of
    library calls it makes, each of which may fail. It refines the list \<open>bootPlan\<close> run until
    the first error. \<open>exitCode\<close> is what the main goroutine exits with; \<open>exitCodes\<close> adds the fatal
    errors of the server's goroutine.
  \<^item> \<open>Kubectl_Dns\<close> (\<^verbatim>\<open>pkg/kubect-dns\<close>, \<^verbatim>\<open>cmd/kubectl-dns\<close>): the five commands, their words and the
    exit status.

  \<^bold>\<open>How code is translated.\<close> A struct is a record, a pointer an option, an error a value of
  \<open>go_error\<close> in a sum, a map a finite map, a 16-, 32- or 64-bit integer a word. A handler takes
  the world \<open>'w\<close> (the API server, the external service, the network) and returns it changed;
  every early return is a branch. A nil dereference or an index out of range is a value
  (\<open>Panic\<close>, \<open>CliPanic\<close>, \<open>None\<close> of \<open>recName\<close>). Logging has no effect and is left out. The order of
  a \<^verbatim>\<open>range\<close> over a map is a parameter (\<open>iterates\<close>). Objects are values, except where sharing
  decides: the deep copies have a heap, the zones of the plugin a store of maps.

  \<^bold>\<open>Hypotheses on other code.\<close> The public suffix list (\<open>psl_suffix\<close>, \<open>psl_no_dot\<close>), Unicode
  lower case (\<open>lower_stable\<close>), the API server (\<open>lawfulServer\<close>, \<open>lawfulCRUD\<close>), the external
  service (\<open>lawfulClient\<close>), owner references (\<open>owner_law\<close>), the zones of CoreDNS
  (\<open>zone_laws\<close>) and their choice for a query (\<open>match_law\<close>), the library's copies of object metadata (\<open>meta_copies\<close>), caddy's use of its
  loader (\<open>asksLoader\<close>) and a server whose informer has caught up (\<open>pluginAnswers\<close>) are
  predicates on the functions that stand for that code. Each states documented behaviour, and
  each has an instance that the witnesses evaluate.

  \<^bold>\<open>Termination.\<close> All definitions but one are total. The loop over the block of the plugin's
  directive, \<open>setupLoop\<close>, depends on the caddy controller and is a partial function into
  \<open>option\<close>; for every controller that yields finitely many lines (\<open>reads\<close>) it returns. The loops of IP parsing carry the bounds
  of the code (4 octets, 8 groups) as fuel; \<open>stripPrefixes\<close> of \<open>trimSpace\<close> has the length of
  the string as fuel, which is enough because each step removes a byte.

  \<^bold>\<open>Not modelled.\<close> What the libraries do when they are called: cobra's parsing of flags and
  commands (the flags are a record), the scheme, the work queues of controller-runtime and its
  retries (the reconcilers are called in any order, \<open>Record_Lifecycle\<close> follows sequences of
  calls), the cache behind the informer, caddy's server and signals. The text of log lines is
  left out. YAML output, column layout, files and the zone-file parser are parameters of the
  commands that use them.
\<close>

section \<open>From a load balancer to its answers\<close>

text \<open>The resource record of a host and an address, with the TTL annotated on the owner.\<close>

definition addressRR :: "ext \<Rightarrow> ObjectMeta \<Rightarrow> string \<Rightarrow> string \<Rightarrow> rr" where
  "addressRR E m host ip =
     RR_A (mkHeader (enforceFqdn E host) TypeA ClassINET (dflt 3600 (annotationTTL (annotations m)))) (ParseIP ip)"

text \<open>
  An object is published as a record if the validating webhook accepts it, it converts to the
  record, and the plugin holds the record and lists its zone in every state in which the
  informer has delivered the object.
\<close>

definition publishedAs ::
  "ext \<Rightarrow> 'z zoneLib \<Rightarrow> ((string, rr) fmap \<Rightarrow> string list) \<Rightarrow> ((string, 'z) fmap \<Rightarrow> string list) \<Rightarrow> IP
     \<Rightarrow> DNSRecord \<Rightarrow> rr \<Rightarrow> bool" where
  "publishedAs E L iter ziter external u rr \<longleftrightarrow>
     ValidateCreate E u = None \<and> ToRR E u = Inr rr
     \<and> (\<forall>S p. (informer E (\<lambda>p. snd (sync E L iter ziter p)))\<^sup>*\<^sup>* ({}, providerInit external) (S, p) \<and> u \<in> S \<longrightarrow>
          fmlookup (p_records p) (rrString E rr) = Some rr
          \<and> (\<forall>z. zoneOf E L rr = InZone z \<longrightarrow> z \<in> set (zs_Names (p_zones p))))"

lemma address_accepted:
  assumes "psl_suffix E" and "nameOk E host" and "ParseIP ip \<noteq> []" and "addressSpec E m host ip (r_Spec u)"
  shows "ValidateCreate E u = None" "ToRR E u = Inr (addressRR E m host ip)" "activeRecord u"
proof -
  have n: "hasSuffix (enforceFqdn E host) ''.''" using assms(2) by (simp add: enforceFqdn_dot_iff [OF assms(1)])
  show "ValidateCreate E u = None"
    using assms(3,4) n
    by (simp add: addressSpec_def ValidateCreate_def validate_None_iff validateSpec_def validateA_Nil defaultA_def)
  show "ToRR E u = Inr (addressRR E m host ip)"
    using assms(3,4) by (simp add: addressSpec_def addressRR_def ToRR_def specToRR_def defaultA_def dflt_def)
  show "activeRecord u" using assms(4) by (simp add: addressSpec_def activeRecord_def ptr_ToBoolD_def)
qed

lemma active_published:
  assumes "zone_laws L" and "iterates iter" and "iterates ziter"
    and "ValidateCreate E u = None" and "ToRR E u = Inr rr" and "activeRecord u"
  shows "publishedAs E L iter ziter external u rr"
proof -
  have "fmlookup (p_records p) (rrString E rr) = Some rr
      \<and> (\<forall>z. zoneOf E L rr = InZone z \<longrightarrow> z \<in> set (zs_Names (p_zones p)))"
    if r: "(informer E (\<lambda>p. snd (sync E L iter ziter p)))\<^sup>*\<^sup>* ({}, providerInit external) (S, p)" "u \<in> S" for S p
  proof -
    have "serves E S (p_records p)" using held.inv_reach [OF r(1) refl] by simp
    then have f: "fmlookup (p_records p) (rrString E rr) = Some rr"
      using r(2) assms(5,6) by (auto simp: serves_def)
    moreover have "zonesFollow E L p" using listed.inv_reach [OF r(1) refl] assms(1-3) by simp
    ultimately show ?thesis by (auto simp: zonesFollow_def zoneSet_def intro: fmran'I)
  qed
  then show ?thesis using assms(4,5) by (auto simp: publishedAs_def)
qed

lemma address_published:
  assumes "zone_laws L" and "iterates iter" and "iterates ziter" and "psl_suffix E" and "nameOk E host"
    and "ParseIP ip \<noteq> []" and "addressSpec E m host ip (r_Spec u)"
  shows "publishedAs E L iter ziter external u (addressRR E m host ip)"
  using active_published [OF assms(1-3)] address_accepted [OF assms(4-7)] by blast

text \<open>
  C11. From a Service to the DNS. Take a Service of type LoadBalancer without the annotation
  \<^verbatim>\<open>dns.linka.cloud/ignore\<close> whose host name annotation has a registrable domain, as written and in lower case. (The
  annotation \<^verbatim>\<open>dns.linka.cloud/disabled\<close> of the README is not read by the code, so a Service
  that carries it is covered.) Assume that the API server works and accepts every write, that the
  owner references can be set, that the listed children are stored in the Service's namespace as
  listed (so none waits for adoption), that no listed child which has to be updated is being
  deleted, and that the object names of the other wanted records are free. Then one
  reconciliation ends without error and stores one object for each address of the load balancer.
  Each whose address parses is published: the validating webhook accepts it, it converts to the A
  record with the absolute host name, the Internet class, the annotated TTL (or 3600) and that
  address, and the DNS plugin holds this record and lists its zone once the informer has
  delivered the object, provided that at every delivery all objects convert and no two of them
  have the same record text. Children that are no longer wanted are gone or going.
\<close>

theorem service_to_dns:
  assumes "owner_law M" and "lawfulCRUD K get"
    and "getSvc req w = (Inr svc, w)" and "nn_Namespace req = m_Namespace (svc_Meta svc)"
    and "k_List K (m_Namespace (svc_Meta svc)) w = (Inr recs, w)"
    and "childLoop M ServiceKind (svc_Meta svc) ServiceAnnotation recs = Inr got"
    and "\<not> serviceWithdrawn E svc" and "serviceWant E M svc = Inr want"
    and "\<forall>v \<in> set got. m_Namespace (r_Meta v) = m_Namespace (svc_Meta svc) \<and> get w (keyOf v) = Some v"
    and "\<forall>v \<in> set want. byName got (objName v) = None \<longrightarrow> get w (keyOf v) = None"
    and "\<forall>v \<in> set want. \<forall>vv. byName got (objName v) = Some vv \<and> differs v vv \<longrightarrow> \<not> deletionRequested vv"
    and "psl_suffix E" and "nameOk E (serviceHostname E svc)"
    and "zone_laws L" and "iterates iter" and "iterates ziter"
  shows "\<exists>w'. serviceReconcile E M K getSvc req w = ((result0, None), w')
    \<and> (\<forall>i < length (nonEmpty (svc_IPs svc)). \<exists>u.
         get w' \<lparr>nn_Namespace = m_Namespace (svc_Meta svc),
                 nn_Name = recordName (m_Name (svc_Meta svc)) ''svc'' (serviceHostname E svc) i\<rparr> = Some u
         \<and> (ParseIP (nonEmpty (svc_IPs svc) ! i) \<noteq> [] \<longrightarrow> publishedAs E L iter ziter external u
             (addressRR E (svc_Meta svc) (serviceHostname E svc) (nonEmpty (svc_IPs svc) ! i))))
    \<and> (\<forall>v \<in> set got. objName v \<notin> objName ` set want \<longrightarrow> goingAway (get w' (keyOf v)))"
proof -
  note served = address_published [OF assms(14-16,12,13)]
  from service_published [where getSvc = getSvc and get = get, OF assms(1-11)] show ?thesis
    using served by (elim ex_forward) meson
qed

text \<open>The Service of the examples on an empty server, with the plugin fed by the informer.\<close>

theorem service_to_dns_witness:
  "\<exists>w' u p rr. serviceReconcile exExt exOwners memK (\<lambda>_ w. (Inr exService, w)) exSvcKey ([], ()) = ((result0, None), w')
     \<and> memGet w' \<lparr>nn_Namespace = ''default'', nn_Name = recordName ''web'' ''svc'' ''www.example.org'' 1\<rparr> = Some u
     \<and> (informer exExt (\<lambda>p. snd (sync exExt exZones exIter exIter p)))\<^sup>*\<^sup>* ({}, providerInit []) ({u}, p)
     \<and> fmlookup (p_records p) (rrString exExt rr) = Some rr"
proof -
  let ?w = "([], ()) :: DNSRecord list \<times> unit"
  obtain want where want: "serviceWant exExt exOwners exService = Inr want" by (rule exService_want)
  have n: "nn_Namespace exSvcKey = m_Namespace (svc_Meta exService)"
    by (simp add: exSvcKey_def exService_def)
  have l: "k_List memK (m_Namespace (svc_Meta exService)) ?w = (Inr [], ?w)" by (simp add: memK_def)
  have c: "childLoop exOwners ServiceKind (svc_Meta exService) ServiceAnnotation [] = Inr []" by simp
  have e1: "\<forall>v \<in> set []. m_Namespace (r_Meta v) = m_Namespace (svc_Meta exService) \<and> memGet ?w (keyOf v) = Some v" by simp
  have e2: "\<forall>v \<in> set want. byName [] (objName v) = None \<longrightarrow> memGet ?w (keyOf v) = None"
    "\<forall>v \<in> set want. \<forall>vv. byName [] (objName v) = Some vv \<and> differs v vv \<longrightarrow> \<not> deletionRequested vv"
    by (simp_all add: memGet_def byName_def)
  have ips: "nonEmpty (svc_IPs exService) = [''10.0.0.1'', ''10.0.0.2'']"
    by (simp add: nonEmpty_def exService_def)
  have ip: "ParseIP (nonEmpty (svc_IPs exService) ! 1) \<noteq> []" by (simp add: ips go_eval)
  have ok: "nameOk exExt (serviceHostname exExt exService)"
    by (simp add: exService_host nameOk_def exPsl_def exDomain_def toLower_def isASCII_def lowerByte_def hasSuffix_def go_eval)
  have nm: "m_Namespace (svc_Meta exService) = ''default''" "m_Name (svc_Meta exService) = ''web''"
    by (simp_all add: exService_def)
  have len: "1 < length (nonEmpty (svc_IPs exService))" by (simp add: ips)
  from service_to_dns [where getSvc = "\<lambda>_ w. (Inr exService, w)" and external = "[]", OF exOwners_law memK_CRUD refl
      n l c exService_published want e1 e2 exExt_laws(1) ok exZones_laws exIter_iterates exIter_iterates] len ip
  obtain w' u rr where u: "serviceReconcile exExt exOwners memK (\<lambda>_ w. (Inr exService, w)) exSvcKey ([], ()) = ((result0, None), w')"
    "memGet w' \<lparr>nn_Namespace = ''default'', nn_Name = recordName ''web'' ''svc'' ''www.example.org'' 1\<rparr> = Some u"
    "publishedAs exExt exZones exIter exIter [] u rr"
    unfolding exService_host nm by blast
  then obtain p where "(informer exExt (\<lambda>p. snd (sync exExt exZones exIter exIter p)))\<^sup>*\<^sup>* ({}, providerInit []) ({u}, p)"
    using informer_single [of exExt u rr exZones exIter exIter "[]"] by (auto simp: publishedAs_def)
  with u show ?thesis unfolding publishedAs_def by blast
qed

text \<open>
  C12. From an Ingress to the DNS. Take an Ingress without the annotation
  \<^verbatim>\<open>dns.linka.cloud/ignore\<close> (here too, \<^verbatim>\<open>dns.linka.cloud/disabled\<close> of the README is not read).
  Assume that the API server works and accepts every write, for whatever host, that the owner
  references can be set, that the generated object names differ, that the listed children are
  stored in the Ingress's namespace as listed (so none waits for adoption), that no listed
  child which has to be updated is being deleted, and that the object names of the other wanted
  records are free. Then one reconciliation ends without error and stores one object for each
  rule with a host and each address of the load balancer. If the host is absolute or has a
  registrable domain (so not \<^verbatim>\<open>intranet\<close>) and the address parses, the object is published as the
  A record of that host and address, in the same sense and under the same condition on the
  delivered objects as for a Service. Children that are no longer wanted are gone or going.
\<close>

theorem ingress_to_dns:
  assumes "owner_law M" and "lawfulCRUD K get"
    and "getIng req w = (Inr ing, w)" and "nn_Namespace req = m_Namespace (ing_Meta ing)"
    and "k_List K (m_Namespace (ing_Meta ing)) w = (Inr recs, w)"
    and "childLoop M IngressKind (ing_Meta ing) IngressAnnotation recs = Inr got"
    and "fmlookup (annotations (ing_Meta ing)) IgnoredAnnotation = None"
    and "ingressWant E M ing = Inr want" and "distinct (map objName want)"
    and "\<forall>v \<in> set got. m_Namespace (r_Meta v) = m_Namespace (ing_Meta ing) \<and> get w (keyOf v) = Some v"
    and "\<forall>v \<in> set want. byName got (objName v) = None \<longrightarrow> get w (keyOf v) = None"
    and "\<forall>v \<in> set want. \<forall>vv. byName got (objName v) = Some vv \<and> differs v vv \<longrightarrow> \<not> deletionRequested vv"
    and "psl_suffix E" and "zone_laws L" and "iterates iter" and "iterates ziter"
  shows "\<exists>w'. ingressReconcile E M K getIng req w = ((result0, None), w')
    \<and> (\<forall>h \<in> set (ing_Hosts ing). \<forall>i < length (nonEmpty (ing_IPs ing)). h \<noteq> [] \<longrightarrow> (\<exists>u.
         get w' \<lparr>nn_Namespace = m_Namespace (ing_Meta ing),
                 nn_Name = recordName (m_Name (ing_Meta ing)) ''ing'' h i\<rparr> = Some u
         \<and> (nameOk E h \<and> ParseIP (nonEmpty (ing_IPs ing) ! i) \<noteq> [] \<longrightarrow>
              publishedAs E L iter ziter external u (addressRR E (ing_Meta ing) h (nonEmpty (ing_IPs ing) ! i)))))
    \<and> (\<forall>v \<in> set got. objName v \<notin> objName ` set want \<longrightarrow> goingAway (get w' (keyOf v)))"
proof -
  note served = address_published [OF assms(14-16,13)]
  from ingress_published [where getIng = getIng and get = get, OF assms(1-12)] show ?thesis
    using served by (elim ex_forward) meson
qed

theorem ingress_to_dns_witness:
  "\<exists>w' u p rr. ingressReconcile exExt exOwners memK (\<lambda>_ w. (Inr exIngress, w)) exSvcKey ([], ()) = ((result0, None), w')
     \<and> memGet w' \<lparr>nn_Namespace = ''default'', nn_Name = recordName ''web'' ''ing'' ''www.example.org'' 0\<rparr> = Some u
     \<and> (informer exExt (\<lambda>p. snd (sync exExt exZones exIter exIter p)))\<^sup>*\<^sup>* ({}, providerInit []) ({u}, p)
     \<and> fmlookup (p_records p) (rrString exExt rr) = Some rr"
proof -
  let ?w = "([], ()) :: DNSRecord list \<times> unit"
  obtain r where want: "ingressWant exExt exOwners exIngress = Inr [r]"
    by (auto simp: ingressWant_def exIngress_def nonEmpty_def childRecord_def exOwners_def Let_def)
  have n: "nn_Namespace exSvcKey = m_Namespace (ing_Meta exIngress)"
    by (simp add: exSvcKey_def exIngress_def)
  have l: "k_List memK (m_Namespace (ing_Meta exIngress)) ?w = (Inr [], ?w)" by (simp add: memK_def)
  have c: "childLoop exOwners IngressKind (ing_Meta exIngress) IngressAnnotation [] = Inr []" by simp
  have i: "fmlookup (annotations (ing_Meta exIngress)) IgnoredAnnotation = None"
    by (simp add: annotations_def exIngress_def emptyMeta_def)
  have d: "distinct (map objName [r])" by simp
  have e1: "\<forall>v \<in> set []. m_Namespace (r_Meta v) = m_Namespace (ing_Meta exIngress) \<and> memGet ?w (keyOf v) = Some v" by simp
  have e2: "\<forall>v \<in> set [r]. byName [] (objName v) = None \<longrightarrow> memGet ?w (keyOf v) = None"
    "\<forall>v \<in> set [r]. \<forall>vv. byName [] (objName v) = Some vv \<and> differs v vv \<longrightarrow> \<not> deletionRequested vv"
    by (simp_all add: memGet_def byName_def)
  have h: "''www.example.org'' \<in> set (ing_Hosts exIngress)" "0 < length (nonEmpty (ing_IPs exIngress))"
    "''www.example.org'' \<noteq> []"
    by (simp_all add: exIngress_def nonEmpty_def)
  have ok: "nameOk exExt ''www.example.org''"
    by (simp add: nameOk_def exPsl_def exDomain_def toLower_def isASCII_def lowerByte_def hasSuffix_def go_eval)
  have ip: "ParseIP (nonEmpty (ing_IPs exIngress) ! 0) \<noteq> []"
    by (simp add: nonEmpty_def exIngress_def go_eval)
  have nm: "m_Namespace (ing_Meta exIngress) = ''default''" "m_Name (ing_Meta exIngress) = ''web''"
    by (simp_all add: exIngress_def)
  from ingress_to_dns [where getIng = "\<lambda>_ w. (Inr exIngress, w)" and external = "[]", OF exOwners_law memK_CRUD refl
      n l c i want d e1 e2 exExt_laws(1) exZones_laws exIter_iterates exIter_iterates] h ok ip
  obtain w' u rr where u: "ingressReconcile exExt exOwners memK (\<lambda>_ w. (Inr exIngress, w)) exSvcKey ([], ()) = ((result0, None), w')"
    "memGet w' \<lparr>nn_Namespace = ''default'', nn_Name = recordName ''web'' ''ing'' ''www.example.org'' 0\<rparr> = Some u"
    "publishedAs exExt exZones exIter exIter [] u rr"
    unfolding nm by blast
  then obtain p where "(informer exExt (\<lambda>p. snd (sync exExt exZones exIter exIter p)))\<^sup>*\<^sup>* ({}, providerInit []) ({u}, p)"
    using informer_single [of exExt u rr exZones exIter exIter "[]"] by (auto simp: publishedAs_def)
  with u show ?thesis unfolding publishedAs_def by blast
qed

end
